theory Spec2Isabelle
  imports Complex_Main "HOL-Library.Multiset"
begin

section \<open>Branch-aware language statistics: the model\<close>

text \<open>
  The endpoint \<^verbatim>\<open>api/top-langs-branch.js\<close> exists in two revisions. Their helper functions
  (\<^verbatim>\<open>toArray\<close>, \<^verbatim>\<open>toBool\<close>, \<^verbatim>\<open>extToLanguage\<close>, \<^verbatim>\<open>fetchAllUserRepos\<close>,
  \<^verbatim>\<open>fetchRepoTreeByBranch\<close>, \<^verbatim>\<open>aggregateByLanguageFromTree\<close>, \<^verbatim>\<open>aggregateRepos\<close>) agree
  statement by statement, apart from the text of the error messages; the two \<^verbatim>\<open>handler\<close>
  functions differ and are both modelled.

  Conventions of the model.
  \<^item> A JavaScript string is a \<open>string\<close>; \<^verbatim>\<open>toLowerCase\<close> and the class \<^verbatim>\<open>\s\<close> are
    modelled on ASCII, every other character is left alone.
  \<^item> A JavaScript number that holds a byte count is an \<open>int\<close>; sums are exact.
  \<^item> A plain object used as a dictionary is an association list in insertion order,
    which is the order \<^verbatim>\<open>Object.entries\<close> walks for keys that are not array indices.
    Language names are taken not to be array indices nor names of members of
    \<^verbatim>\<open>Object.prototype\<close>.
  \<^item> A value that may be \<^verbatim>\<open>undefined\<close> is an \<open>option\<close>.
  \<^item> A thrown \<^verbatim>\<open>Error\<close> is the left summand of a result.
\<close>

subsection \<open>Strings\<close>

definition lower_char :: "char \<Rightarrow> char" where
  "lower_char c =
     (let n = (of_char c :: nat) in if 65 \<le> n \<and> n \<le> 90 then char_of (n + 32) else c)"

definition toLowerCase :: "string \<Rightarrow> string" where
  "toLowerCase s = map lower_char s"

text \<open>\<^verbatim>\<open>s.lastIndexOf(c)\<close>: the greatest index holding \<open>c\<close>, or \<open>-1\<close>.\<close>

fun lastIndexOf_from :: "char \<Rightarrow> string \<Rightarrow> int \<Rightarrow> int \<Rightarrow> int" where
  "lastIndexOf_from c [] i best = best"
| "lastIndexOf_from c (x # xs) i best =
     lastIndexOf_from c xs (i + 1) (if x = c then i else best)"

definition lastIndexOf :: "string \<Rightarrow> char \<Rightarrow> int" where
  "lastIndexOf s c = lastIndexOf_from c s 0 (- 1)"

text \<open>\<^verbatim>\<open>s.slice(i)\<close> for an index \<open>i \<ge> 0\<close>.\<close>

definition slice_from :: "string \<Rightarrow> int \<Rightarrow> string" where
  "slice_from s i = drop (nat i) s"

text \<open>\<^verbatim>\<open>e.replace(/^\./, "")\<close>: one leading dot is removed.\<close>

fun strip_leading_dot :: "string \<Rightarrow> string" where
  "strip_leading_dot [] = []"
| "strip_leading_dot (c # cs) = (if c = CHR ''.'' then cs else c # cs)"

text \<open>\<^verbatim>\<open>s.split(sep)\<close> for a one-character separator: never the empty list.\<close>

fun split_on :: "char \<Rightarrow> string \<Rightarrow> string list" where
  "split_on sep [] = [[]]"
| "split_on sep (c # cs) =
     (if c = sep then [] # split_on sep cs
      else (case split_on sep cs of
              [] \<Rightarrow> [[c]]
            | w # ws \<Rightarrow> (c # w) # ws))"

subsection \<open>Objects as association lists\<close>

type_synonym 'v obj = "(string \<times> 'v) list"

text \<open>\<^verbatim>\<open>o[k] = v\<close>: an existing key keeps its place, a new key goes last.\<close>

fun set_prop :: "string \<Rightarrow> 'v \<Rightarrow> 'v obj \<Rightarrow> 'v obj" where
  "set_prop k v [] = [(k, v)]"
| "set_prop k v (p # ps) = (if fst p = k then (k, v) # ps else p # set_prop k v ps)"

text \<open>\<^verbatim>\<open>o[k]\<close>, with \<open>None\<close> for \<^verbatim>\<open>undefined\<close>.\<close>

definition get_prop :: "'v obj \<Rightarrow> string \<Rightarrow> 'v option" where
  "get_prop ob k = map_of ob k"

text \<open>\<^verbatim>\<open>delete o[k]\<close>.\<close>

definition delete_prop :: "string \<Rightarrow> 'v obj \<Rightarrow> 'v obj" where
  "delete_prop k ob = filter (\<lambda>p. fst p \<noteq> k) ob"

text \<open>\<^verbatim>\<open>x || 0\<close> on a number that may be undefined.\<close>

definition or0 :: "int option \<Rightarrow> int" where
  "or0 x = (case x of None \<Rightarrow> 0 | Some v \<Rightarrow> (if v = 0 then 0 else v))"

subsection \<open>The language catalog and \<^verbatim>\<open>extToLanguage\<close>\<close>

text \<open>
  The catalog (\<^verbatim>\<open>language-map\<close>) is an external table, taken as a parameter: for each
  language name its optional extension list and its optional colour.
\<close>

record lang_meta =
  extensions :: "string list option"
  color :: "string option"

type_synonym catalog = "lang_meta obj"

definition claims_ext :: "lang_meta \<Rightarrow> string \<Rightarrow> bool" where
  "claims_ext meta ext =
     (let exts = (case extensions meta of None \<Rightarrow> [] | Some es \<Rightarrow> es)
      in list_ex (\<lambda>e. strip_leading_dot e = ext) exts)"

fun first_lang :: "catalog \<Rightarrow> string \<Rightarrow> string option" where
  "first_lang [] ext = None"
| "first_lang ((lang, meta) # rest) ext =
     (if claims_ext meta ext then Some lang else first_lang rest ext)"

definition extToLanguage :: "catalog \<Rightarrow> string \<Rightarrow> string option" where
  "extToLanguage cat filename =
     (let idx = lastIndexOf filename CHR ''.'' in
      if idx \<le> 0 then None
      else first_lang cat (toLowerCase (slice_from filename (idx + 1))))"

subsection \<open>\<^verbatim>\<open>aggregateByLanguageFromTree\<close>\<close>

record tree_item =
  item_path :: string
  item_type :: string
  item_size :: "int option"

type_synonym totals = "int obj"

text \<open>
  The loop body, one item at a time. \<open>item_size = None\<close> stands for a size whose
  \<^verbatim>\<open>typeof\<close> is not \<^verbatim>\<open>"number"\<close>; \<^verbatim>\<open>!lang\<close> holds for \<^verbatim>\<open>null\<close> and for the empty name.
\<close>

definition tree_step :: "catalog \<Rightarrow> tree_item \<Rightarrow> totals \<Rightarrow> totals" where
  "tree_step cat item tot =
     (if item_type item \<noteq> ''blob'' then tot
      else case item_size item of
        None \<Rightarrow> tot
      | Some sz \<Rightarrow>
          (case extToLanguage cat (item_path item) of
             None \<Rightarrow> tot
           | Some lang \<Rightarrow>
               if lang = [] then tot
               else set_prop lang (or0 (get_prop tot lang) + sz) tot))"

fun tree_loop :: "catalog \<Rightarrow> tree_item list \<Rightarrow> totals \<Rightarrow> totals" where
  "tree_loop cat [] tot = tot"
| "tree_loop cat (item # tree) tot = tree_loop cat tree (tree_step cat item tot)"

definition aggregateByLanguageFromTree :: "catalog \<Rightarrow> tree_item list \<Rightarrow> totals" where
  "aggregateByLanguageFromTree cat tree = tree_loop cat tree []"

text \<open>
  What the contract of the aggregator says, in its own words: an entry contributes to
  language \<open>L\<close> when it is a blob, has a numeric size and its path classifies to \<open>L\<close>
  (a name the loop does not discard); the total of \<open>L\<close> is the sum of the sizes of its
  contributing entries, and a language without one has no key.
\<close>

definition size_or0 :: "tree_item \<Rightarrow> int" where
  "size_or0 item = (case item_size item of None \<Rightarrow> 0 | Some sz \<Rightarrow> sz)"

definition contributes :: "catalog \<Rightarrow> string \<Rightarrow> tree_item \<Rightarrow> bool" where
  "contributes cat L item \<longleftrightarrow>
     item_type item = ''blob'' \<and> item_size item \<noteq> None \<and>
     extToLanguage cat (item_path item) = Some L \<and> L \<noteq> []"

definition expected_total :: "catalog \<Rightarrow> tree_item list \<Rightarrow> string \<Rightarrow> int option" where
  "expected_total cat tree L =
     (if list_ex (contributes cat L) tree
      then Some (sum_list (map size_or0 (filter (contributes cat L) tree)))
      else None)"

subsection \<open>The upstream service\<close>

text \<open>
  The GitHub API is an external service, taken as a parameter. A call to \<^verbatim>\<open>fetch\<close> either
  rejects or resolves to a response with a status; reading the body with \<^verbatim>\<open>json()\<close>
  either rejects or yields the parsed value. \<^verbatim>\<open>r.ok\<close> is the Fetch standard's: the status
  lies in 200..299. Of a parsed body only the part the code reads is kept: the array of
  repositories (\<open>None\<close> when the body is not an array), \<^verbatim>\<open>commit.sha\<close> of a branch, \<^verbatim>\<open>tree\<close>
  of a tree. The request headers, hence the token, and the page size are part of the
  request the parameter answers.
\<close>

datatype 'a body = BadJson | Json 'a

datatype 'a fetched = Rejected | Response nat "'a body"

definition ok :: "nat \<Rightarrow> bool" where
  "ok st \<longleftrightarrow> 200 \<le> st \<and> st \<le> 299"

record repo_info =
  full_name :: string
  fork :: bool
  archived :: bool

record upstream =
  list_repos :: "string \<Rightarrow> nat \<Rightarrow> repo_info list option fetched"
  branch_lookup :: "string \<Rightarrow> string \<Rightarrow> string \<Rightarrow> string option fetched"
  tree_fetch :: "string \<Rightarrow> string \<Rightarrow> string \<Rightarrow> tree_item list option fetched"

text \<open>
  The errors thrown: a rejected \<^verbatim>\<open>fetch\<close>, a rejected \<^verbatim>\<open>json()\<close>, and the three
  \<^verbatim>\<open>throw new Error\<close> of the source with the values their messages carry (the later
  revision appends the response text to the message).
\<close>

datatype error =
    FetchRejected
  | JsonRejected
  | ListReposFailed string nat
  | BranchLookupFailed string string string nat
  | TreeFetchFailed string string string nat

subsection \<open>\<^verbatim>\<open>fetchAllUserRepos\<close>\<close>

definition keep_repo :: "bool \<Rightarrow> bool \<Rightarrow> repo_info \<Rightarrow> bool" where
  "keep_repo includeForks includeArchived repo =
     (if \<not> includeForks \<and> fork repo then False
      else if \<not> includeArchived \<and> archived repo then False
      else True)"

function list_pages ::
  "upstream \<Rightarrow> string \<Rightarrow> bool \<Rightarrow> bool \<Rightarrow> nat \<Rightarrow> nat \<Rightarrow> repo_info list \<Rightarrow> error + repo_info list"
where
  "list_pages up usr includeForks includeArchived maxPages page acc =
     (if page \<le> maxPages then
        (case list_repos up usr page of
           Rejected \<Rightarrow> Inl FetchRejected
         | Response st b \<Rightarrow>
             if \<not> ok st then Inl (ListReposFailed usr st)
             else (case b of
                     BadJson \<Rightarrow> Inl JsonRejected
                   | Json js \<Rightarrow>
                       (case js of
                          None \<Rightarrow> Inr acc
                        | Some rs \<Rightarrow>
                            if rs = [] then Inr acc
                            else list_pages up usr includeForks includeArchived maxPages (page + 1)
                                   (acc @ filter (keep_repo includeForks includeArchived) rs))))
      else Inr acc)"
  by pat_completeness auto
termination
  by (relation "measure (\<lambda>(up, usr, f, a, maxPages, page, acc). maxPages + 1 - page)") auto

text \<open>The defaults \<^verbatim>\<open>perPage = 100\<close>, \<^verbatim>\<open>maxPages = 5\<close> are never overridden by a caller.\<close>

definition fetchAllUserRepos :: "upstream \<Rightarrow> string \<Rightarrow> bool \<Rightarrow> bool \<Rightarrow> error + string list" where
  "fetchAllUserRepos up usr includeForks includeArchived =
     (case list_pages up usr includeForks includeArchived 5 1 [] of
        Inl e \<Rightarrow> Inl e
      | Inr acc \<Rightarrow> Inr (map full_name acc))"

subsection \<open>\<^verbatim>\<open>fetchRepoTreeByBranch\<close>\<close>

definition fetchRepoTreeByBranch ::
  "upstream \<Rightarrow> string \<Rightarrow> string \<Rightarrow> string \<Rightarrow> error + tree_item list"
where
  "fetchRepoTreeByBranch up owner repo branch =
     (case branch_lookup up owner repo branch of
        Rejected \<Rightarrow> Inl FetchRejected
      | Response bst bbody \<Rightarrow>
          if \<not> ok bst then
            (if bst = 404 then Inr [] else Inl (BranchLookupFailed owner repo branch bst))
          else
            (case bbody of
               BadJson \<Rightarrow> Inl JsonRejected
             | Json sha_opt \<Rightarrow>
                 (case sha_opt of
                    None \<Rightarrow> Inr []
                  | Some sha \<Rightarrow>
                      if sha = [] then Inr []
                      else
                        (case tree_fetch up owner repo sha of
                           Rejected \<Rightarrow> Inl FetchRejected
                         | Response tst tbody \<Rightarrow>
                             if \<not> ok tst then
                               (if tst = 409 then Inr []
                                else Inl (TreeFetchFailed owner repo sha tst))
                             else
                               (case tbody of
                                  BadJson \<Rightarrow> Inl JsonRejected
                                | Json tree_opt \<Rightarrow>
                                    Inr (case tree_opt of None \<Rightarrow> [] | Some tree \<Rightarrow> tree))))))"

subsection \<open>\<^verbatim>\<open>aggregateRepos\<close>\<close>

text \<open>The inner loop: \<^verbatim>\<open>for (const [k, v] of Object.entries(byLang)) grand[k] = (grand[k] || 0) + v\<close>.\<close>

fun merge_loop :: "totals \<Rightarrow> totals \<Rightarrow> totals" where
  "merge_loop [] grand = grand"
| "merge_loop ((k, v) # byLang) grand =
     merge_loop byLang (set_prop k (or0 (get_prop grand k) + v) grand)"

text \<open>
  The outer loop. \<^verbatim>\<open>const [owner, repo] = full.split("/")\<close> takes the first two
  segments; a missing or empty one skips the reference. An error of the resolver leaves
  the loop and the function.
\<close>

fun repos_loop :: "upstream \<Rightarrow> catalog \<Rightarrow> string list \<Rightarrow> string \<Rightarrow> totals \<Rightarrow> error + totals" where
  "repos_loop up cat [] branch grand = Inr grand"
| "repos_loop up cat (full # rest) branch grand =
     (case split_on CHR ''/'' full of
        owner # repo # _ \<Rightarrow>
          if owner = [] \<or> repo = [] then repos_loop up cat rest branch grand
          else
            (case fetchRepoTreeByBranch up owner repo branch of
               Inl e \<Rightarrow> Inl e
             | Inr tree \<Rightarrow>
                 if tree = [] then repos_loop up cat rest branch grand
                 else repos_loop up cat rest branch
                        (merge_loop (aggregateByLanguageFromTree cat tree) grand))
      | _ \<Rightarrow> repos_loop up cat rest branch grand)"

definition aggregateRepos :: "upstream \<Rightarrow> catalog \<Rightarrow> string list \<Rightarrow> string \<Rightarrow> error + totals" where
  "aggregateRepos up cat repoFullNames branch = repos_loop up cat repoFullNames branch []"

subsection \<open>Query helpers: \<^verbatim>\<open>toArray\<close>, \<^verbatim>\<open>toBool\<close>, \<^verbatim>\<open>parseInt\<close>, \<^verbatim>\<open>clampValue\<close>\<close>

text \<open>A destructuring default, \<^verbatim>\<open>{ x = d }\<close>: it applies to \<^verbatim>\<open>undefined\<close> only.\<close>

definition with_default :: "'a \<Rightarrow> 'a option \<Rightarrow> 'a" where
  "with_default d x = (case x of None \<Rightarrow> d | Some v \<Rightarrow> v)"

text \<open>\<^verbatim>\<open>!s\<close> on a string that may be undefined.\<close>

definition falsy :: "string option \<Rightarrow> bool" where
  "falsy s \<longleftrightarrow> s = None \<or> s = Some []"

text \<open>The class \<^verbatim>\<open>\s\<close> (its ASCII members) and the class \<^verbatim>\<open>[,\s]\<close>.\<close>

definition is_space :: "char \<Rightarrow> bool" where
  "is_space c \<longleftrightarrow> c \<in> set [CHR '' '', CHR 0x09, CHR 0x0A, CHR 0x0B, CHR 0x0C, CHR 0x0D]"

definition is_sep :: "char \<Rightarrow> bool" where
  "is_sep c \<longleftrightarrow> c = CHR '','' \<or> is_space c"

text \<open>\<^verbatim>\<open>q.split(/[,\s]+/)\<close>: a run of separators ends a piece.\<close>

function split_seps :: "string \<Rightarrow> string list" where
  "split_seps [] = [[]]"
| "split_seps (c # cs) =
     (if is_sep c then [] # split_seps (dropWhile is_sep cs)
      else (case split_seps cs of
              [] \<Rightarrow> [[c]]
            | w # ws \<Rightarrow> (c # w) # ws))"
  by pat_completeness auto
termination
  by (relation "measure length") (auto simp: length_dropWhile_le less_Suc_eq_le)

definition trim :: "string \<Rightarrow> string" where
  "trim s = rev (dropWhile is_space (rev (dropWhile is_space s)))"

definition toArray :: "string option \<Rightarrow> string list" where
  "toArray q =
     (case q of
        None \<Rightarrow> []
      | Some s \<Rightarrow> if s = [] then [] else filter (\<lambda>w. w \<noteq> []) (map trim (split_seps s)))"

definition toBool :: "string option \<Rightarrow> bool \<Rightarrow> bool" where
  "toBool q def =
     (case q of
        None \<Rightarrow> def
      | Some s \<Rightarrow> toLowerCase s \<in> set [''1'', ''true'', ''yes'', ''y'', ''on''])"

text \<open>
  \<^verbatim>\<open>parseInt(s, 10)\<close>: leading white space, an optional sign, then the longest run of
  decimal digits; \<open>None\<close> is \<^verbatim>\<open>NaN\<close>.
\<close>

definition is_digit :: "char \<Rightarrow> bool" where
  "is_digit c \<longleftrightarrow> c \<in> set ''0123456789''"

definition digit_val :: "char \<Rightarrow> int" where
  "digit_val c = int (of_char c) - 48"

definition digits_val :: "string \<Rightarrow> int" where
  "digits_val ds = foldl (\<lambda>n c. 10 * n + digit_val c) 0 ds"

definition parseInt :: "string \<Rightarrow> int option" where
  "parseInt s =
     (let t = dropWhile is_space s;
          neg = (case t of c # _ \<Rightarrow> c = CHR ''-'' | [] \<Rightarrow> False);
          u = (case t of c # r \<Rightarrow> if c = CHR ''-'' \<or> c = CHR ''+'' then r else t | [] \<Rightarrow> t);
          ds = takeWhile is_digit u
      in if ds = [] then None
         else Some (if neg then - digits_val ds else digits_val ds))"

text \<open>\<^verbatim>\<open>parseInt(s, 10) || d\<close>: \<^verbatim>\<open>NaN\<close> and \<open>0\<close> are falsy.\<close>

definition or_num :: "int option \<Rightarrow> int \<Rightarrow> int" where
  "or_num x d = (case x of None \<Rightarrow> d | Some n \<Rightarrow> if n = 0 then d else n)"

text \<open>
  Modelled from the spec: \<^verbatim>\<open>clampValue\<close> is imported from the card library's utilities and
  is not part of these sources; the specification describes its result as the number
  clamped into the closed interval of its two bounds.
\<close>

definition clampValue :: "int \<Rightarrow> int \<Rightarrow> int \<Rightarrow> int" where
  "clampValue n lo hi = max lo (min n hi)"

subsection \<open>The ranking steps of \<^verbatim>\<open>handler\<close>\<close>

text \<open>\<^verbatim>\<open>new Set(toArray(hide).map(x => x.toLowerCase()))\<close>, as the list of its members.\<close>

definition lowered_set :: "string option \<Rightarrow> string list" where
  "lowered_set q = map toLowerCase (toArray q)"

text \<open>
  \<^verbatim>\<open>for (const k of Object.keys(totals)) if (hideList.has(k.toLowerCase())) delete totals[k]\<close>:
  the keys are listed once, before the first deletion.
\<close>

fun hide_loop :: "string list \<Rightarrow> string list \<Rightarrow> totals \<Rightarrow> totals" where
  "hide_loop [] hideList tot = tot"
| "hide_loop (k # ks) hideList tot =
     hide_loop ks hideList (if toLowerCase k \<in> set hideList then delete_prop k tot else tot)"

definition hide_totals :: "string list \<Rightarrow> totals \<Rightarrow> totals" where
  "hide_totals hideList tot = hide_loop (map fst tot) hideList tot"

text \<open>
  \<^verbatim>\<open>Object.entries(totals).sort((a, b) => b[1] - a[1])\<close>: a stable sort, greatest total
  first.
\<close>

definition sorted_entries :: "totals \<Rightarrow> (string \<times> int) list" where
  "sorted_entries tot = sort_key (\<lambda>p. - snd p) tot"

definition topN_of :: "string \<Rightarrow> int" where
  "topN_of langs_count = clampValue (or_num (parseInt langs_count) 6) 1 20"

text \<open>\<^verbatim>\<open>sorted.slice(0, topN)\<close> of the totals left after the deletions.\<close>

definition top_entries :: "totals \<Rightarrow> string list \<Rightarrow> int \<Rightarrow> (string \<times> int) list" where
  "top_entries tot hideList topN = take (nat topN) (sorted_entries (hide_totals hideList tot))"

text \<open>
  The items handed to the renderer. The property \<^verbatim>\<open>size\<close> is the field \<open>bytes\<close> and the
  property \<^verbatim>\<open>color\<close> of an item is the field \<open>colour\<close>.
\<close>

record card_item =
  name :: string
  bytes :: int

record percent_item = card_item +
  percent :: rat

record colour_item = card_item +
  colour :: string

text \<open>The first revision: \<^verbatim>\<open>totalBytes\<close> and \<^verbatim>\<open>items\<close> with their share in percent.\<close>

definition totalBytes :: "(string \<times> int) list \<Rightarrow> int" where
  "totalBytes tops = foldl (\<lambda>acc p. acc + snd p) 0 tops"

definition percent_items :: "(string \<times> int) list \<Rightarrow> percent_item list" where
  "percent_items tops =
     map (\<lambda>(nm, sz). \<lparr>name = nm, bytes = sz,
            percent = (if totalBytes tops \<noteq> 0 then (of_int sz / of_int (totalBytes tops)) * 100 else 0)\<rparr>)
       tops"

text \<open>
  Lines 168 to 177 of the first revision as one function of the grand totals and of the
  two query strings \<^verbatim>\<open>hide\<close> and \<^verbatim>\<open>langs_count\<close> (after their defaults).
\<close>

definition ranked_items :: "totals \<Rightarrow> string \<Rightarrow> string \<Rightarrow> percent_item list" where
  "ranked_items tot hide langs_count =
     percent_items (top_entries tot (lowered_set (Some hide)) (topN_of langs_count))"

text \<open>The later revision: \<^verbatim>\<open>items\<close> with the catalog's colour, grey when there is none.\<close>

definition colour_of :: "catalog \<Rightarrow> string \<Rightarrow> string" where
  "colour_of cat nm =
     (case get_prop cat nm of
        None \<Rightarrow> ''#858585''
      | Some meta \<Rightarrow>
          (case color meta of
             None \<Rightarrow> ''#858585''
           | Some c \<Rightarrow> if c = [] then ''#858585'' else c))"

definition colour_items :: "catalog \<Rightarrow> (string \<times> int) list \<Rightarrow> colour_item list" where
  "colour_items cat tops =
     map (\<lambda>(nm, sz). \<lparr>name = nm, bytes = sz, colour = colour_of cat nm\<rparr>) tops"

definition ranked_colour_items :: "catalog \<Rightarrow> totals \<Rightarrow> string \<Rightarrow> string \<Rightarrow> colour_item list" where
  "ranked_colour_items cat tot hide langs_count =
     colour_items cat (top_entries tot (lowered_set (Some hide)) (topN_of langs_count))"

subsection \<open>\<^verbatim>\<open>handler\<close>\<close>

text \<open>
  The query parameters the pipeline reads (the display options are handed to the
  renderer untouched and are left out), the secret \<^verbatim>\<open>process.env.PAT_1\<close> as an argument,
  and the response as its status with what was sent. The card renderer is external: a
  sent card is represented by the items and the \<^verbatim>\<open>langs_count\<close> it was rendered from.

  Every query parameter is a string or absent. A key given more than once reaches the
  handler as an array and is outside this model: \<^verbatim>\<open>toArray\<close> has no test for it, so on an
  array \<^verbatim>\<open>exclude_repos\<close> or \<^verbatim>\<open>hide\<close> the call \<^verbatim>\<open>q.split\<close> throws and the \<^verbatim>\<open>catch\<close>
  answers 500. Everything stated about the handlers is about requests whose parameters
  are strings.
\<close>

record query =
  q_user :: "string option"
  q_branch :: "string option"
  q_exclude_repos :: "string option"
  q_include_forks :: "string option"
  q_include_archived :: "string option"
  q_hide :: "string option"
  q_langs_count :: "string option"
  q_max_repos :: "string option"
  q_debug :: "string option"

datatype payload =
    PlainText string
  | ErrorMessage error
  | SvgCard "card_item list" int
  | SvgColourCard "colour_item list" int
  | DebugDump string "string list" totals "colour_item list"

record response =
  res_status :: nat
  res_body :: payload

text \<open>\<^verbatim>\<open>full.split("/")[1]?.toLowerCase() || ""\<close>.\<close>

definition repo_name_lower :: "string \<Rightarrow> string" where
  "repo_name_lower full =
     (case split_on CHR ''/'' full of
        _ # nm # _ \<Rightarrow> toLowerCase nm
      | _ \<Rightarrow> [])"

definition select_repos :: "string list \<Rightarrow> string list \<Rightarrow> int \<Rightarrow> string list" where
  "select_repos listed exclude maxRepos =
     take (nat maxRepos) (filter (\<lambda>full. repo_name_lower full \<notin> set exclude) listed)"

text \<open>The first revision (\<^verbatim>\<open>src/api/top-langs-branch.js\<close>).\<close>

definition handler :: "string option \<Rightarrow> upstream \<Rightarrow> catalog \<Rightarrow> query \<Rightarrow> response" where
  "handler pat up cat q =
     (let branch = with_default ''develop'' (q_branch q);
          exclude_repos = with_default [] (q_exclude_repos q);
          hide = with_default [] (q_hide q);
          langs_count = with_default ''6'' (q_langs_count q);
          max_repos = with_default ''60'' (q_max_repos q)
      in
      if falsy pat then \<lparr>res_status = 500, res_body = PlainText ''PAT_1 env not set''\<rparr>
      else
        let exclude = lowered_set (Some exclude_repos);
            allowForks = toBool (q_include_forks q) False;
            allowArchived = toBool (q_include_archived q) False;
            maxRepos = clampValue (or_num (parseInt max_repos) 60) 1 300
        in
        if falsy (q_user q) then \<lparr>res_status = 400, res_body = PlainText ''Provide ?user=username''\<rparr>
        else
          (case fetchAllUserRepos up (with_default [] (q_user q)) allowForks allowArchived of
             Inl e \<Rightarrow> \<lparr>res_status = 500, res_body = ErrorMessage e\<rparr>
           | Inr listed \<Rightarrow>
               let repoFullNames = select_repos listed exclude maxRepos in
               if repoFullNames = [] then
                 \<lparr>res_status = 404, res_body = PlainText ''No repositories to analyze after filters.''\<rparr>
               else
                 (case aggregateRepos up cat repoFullNames branch of
                    Inl e \<Rightarrow> \<lparr>res_status = 500, res_body = ErrorMessage e\<rparr>
                  | Inr totals \<Rightarrow>
                      let topN = topN_of langs_count;
                          items = ranked_items totals hide langs_count
                      in \<lparr>res_status = 200,
                          res_body = SvgCard (map (\<lambda>i. \<lparr>name = name i, bytes = bytes i\<rparr>) items) topN\<rparr>)))"

text \<open>
  The later revision (\<^verbatim>\<open>part_000\<close>): the two guards are adjacent, the items carry a colour,
  and a debug flag sends the intermediate values instead of the card.
\<close>

definition handler_rev2 :: "string option \<Rightarrow> upstream \<Rightarrow> catalog \<Rightarrow> query \<Rightarrow> response" where
  "handler_rev2 pat up cat q =
     (let branch = with_default ''develop'' (q_branch q);
          exclude_repos = with_default [] (q_exclude_repos q);
          hide = with_default [] (q_hide q);
          langs_count = with_default ''6'' (q_langs_count q);
          max_repos = with_default ''60'' (q_max_repos q)
      in
      if falsy pat then \<lparr>res_status = 500, res_body = PlainText ''PAT_1 env not set''\<rparr>
      else if falsy (q_user q) then
        \<lparr>res_status = 400, res_body = PlainText ''Provide ?user=username''\<rparr>
      else
        let exclude = lowered_set (Some exclude_repos);
            hideList = lowered_set (Some hide);
            allowForks = toBool (q_include_forks q) False;
            allowArchived = toBool (q_include_archived q) False;
            maxRepos = clampValue (or_num (parseInt max_repos) 60) 1 300
        in
          (case fetchAllUserRepos up (with_default [] (q_user q)) allowForks allowArchived of
             Inl e \<Rightarrow> \<lparr>res_status = 500, res_body = ErrorMessage e\<rparr>
           | Inr listed \<Rightarrow>
               let repoFullNames = select_repos listed exclude maxRepos in
               if repoFullNames = [] then
                 \<lparr>res_status = 404, res_body = PlainText ''No repositories to analyze after filters.''\<rparr>
               else
                 (case aggregateRepos up cat repoFullNames branch of
                    Inl e \<Rightarrow> \<lparr>res_status = 500, res_body = ErrorMessage e\<rparr>
                  | Inr totals \<Rightarrow>
                      let topN = topN_of langs_count;
                          items = ranked_colour_items cat totals hide langs_count
                      in
                      if toBool (q_debug q) False then
                        \<lparr>res_status = 200,
                         res_body = DebugDump branch repoFullNames (hide_totals hideList totals) items\<rparr>
                      else \<lparr>res_status = 200, res_body = SvgColourCard items topN\<rparr>)))"

text \<open>
  The lists of repositories the handlers pass to \<^verbatim>\<open>aggregateRepos\<close> (lines 141 to 160 of
  the first revision), as a function of the query and of the listed repositories.
\<close>

definition repoFullNames_of :: "query \<Rightarrow> string list \<Rightarrow> string list" where
  "repoFullNames_of q listed =
     select_repos listed
       (lowered_set (Some (with_default [] (q_exclude_repos q))))
       (clampValue (or_num (parseInt (with_default ''60'' (q_max_repos q))) 60) 1 300)"

subsection \<open>Specification-side notions\<close>

text \<open>
  The per-repository totals of a reference, as the contract of the aggregator names
  them: what the resolved tree of the reference aggregates to, nothing for a reference
  without an owner or a name, and the resolver's error when it has one.
\<close>

definition repo_totals :: "upstream \<Rightarrow> catalog \<Rightarrow> string \<Rightarrow> string \<Rightarrow> error + totals" where
  "repo_totals up cat branch full =
     (case split_on CHR ''/'' full of
        owner # repo # _ \<Rightarrow>
          if owner = [] \<or> repo = [] then Inr []
          else (case fetchRepoTreeByBranch up owner repo branch of
                  Inl e \<Rightarrow> Inl e
                | Inr tree \<Rightarrow> Inr (aggregateByLanguageFromTree cat tree))
      | _ \<Rightarrow> Inr [])"

fun all_repo_totals :: "upstream \<Rightarrow> catalog \<Rightarrow> string \<Rightarrow> string list \<Rightarrow> error + totals list" where
  "all_repo_totals up cat branch [] = Inr []"
| "all_repo_totals up cat branch (full # rest) =
     (case repo_totals up cat branch full of
        Inl e \<Rightarrow> Inl e
      | Inr t \<Rightarrow>
          (case all_repo_totals up cat branch rest of
             Inl e \<Rightarrow> Inl e
           | Inr ts \<Rightarrow> Inr (t # ts)))"

text \<open>The sum, key by key, of a list of totals; a key none of them has is absent.\<close>

definition value_or0 :: "totals \<Rightarrow> string \<Rightarrow> int" where
  "value_or0 t L = (case map_of t L of None \<Rightarrow> 0 | Some v \<Rightarrow> v)"

definition pointwise_sum :: "totals list \<Rightarrow> string \<Rightarrow> int option" where
  "pointwise_sum ts L =
     (if list_ex (\<lambda>t. map_of t L \<noteq> None) ts
      then Some (sum_list (map (\<lambda>t. value_or0 t L) ts))
      else None)"

text \<open>
  The final segment of a path, and a catalog none of whose extensions contains a slash.
\<close>

definition final_segment :: "string \<Rightarrow> string" where
  "final_segment path = rev (takeWhile (\<lambda>c. c \<noteq> CHR ''/'') (rev path))"

definition slash_free_catalog :: "catalog \<Rightarrow> bool" where
  "slash_free_catalog cat =
     list_all (\<lambda>entry. list_all (\<lambda>e. CHR ''/'' \<notin> set e)
                 (case extensions (snd entry) of None \<Rightarrow> [] | Some es \<Rightarrow> es)) cat"

text \<open>The sum of two totals of one key, either of which may be absent.\<close>

definition add_opt :: "int option \<Rightarrow> int option \<Rightarrow> int option" where
  "add_opt a b =
     (case a of
        None \<Rightarrow> b
      | Some x \<Rightarrow> (case b of None \<Rightarrow> Some x | Some y \<Rightarrow> Some (x + y)))"

text \<open>A language is hidden when its lower-cased name is a member of the hide set.\<close>

definition hidden :: "string list \<Rightarrow> string \<Rightarrow> bool" where
  "hidden hideList nm \<longleftrightarrow> toLowerCase nm \<in> set hideList"

text \<open>
  The tree a reference resolves to (empty for a reference without an owner or a name),
  and the counted entries of a language: the entries of the resolved trees of the
  references, in order, that contribute to that language.
\<close>

definition repo_tree :: "upstream \<Rightarrow> string \<Rightarrow> string \<Rightarrow> tree_item list" where
  "repo_tree up branch full =
     (case split_on CHR ''/'' full of
        owner # repo # _ \<Rightarrow>
          if owner = [] \<or> repo = [] then []
          else (case fetchRepoTreeByBranch up owner repo branch of
                  Inl e \<Rightarrow> []
                | Inr tree \<Rightarrow> tree)
      | _ \<Rightarrow> [])"

definition counted_entries ::
  "upstream \<Rightarrow> catalog \<Rightarrow> string \<Rightarrow> string list \<Rightarrow> string \<Rightarrow> tree_item list" where
  "counted_entries up cat branch refs L =
     filter (contributes cat L) (concat (map (repo_tree up branch) refs))"

subsection \<open>Concrete data for the examples\<close>

definition demo_catalog :: catalog where
  "demo_catalog =
     [(''Go'', \<lparr>extensions = Some [''.go''], color = Some ''#00ADD8''\<rparr>),
      (''Rust'', \<lparr>extensions = Some [''.rs''], color = Some ''#dea584''\<rparr>),
      (''Python'', \<lparr>extensions = Some [''.py''], color = None\<rparr>),
      (''Ignore List'', \<lparr>extensions = Some [''.gitignore''], color = None\<rparr>)]"

definition blob :: "string \<Rightarrow> int \<Rightarrow> tree_item" where
  "blob p n = \<lparr>item_path = p, item_type = ''blob'', item_size = Some n\<rparr>"

text \<open>
  A user \<open>u\<close> with the repositories \<open>A\<close> (100 bytes of Go) and \<open>B\<close> (50 bytes of Go, 30 of
  Rust), both with a branch \<open>develop\<close>.
\<close>

definition demo_upstream :: upstream where
  "demo_upstream =
     \<lparr>list_repos = (\<lambda>usr page.
         if usr = ''u'' \<and> page = 1
         then Response 200 (Json (Some [\<lparr>full_name = ''u/A'', fork = False, archived = False\<rparr>,
                                         \<lparr>full_name = ''u/B'', fork = False, archived = False\<rparr>]))
         else Response 200 (Json (Some []))),
      branch_lookup = (\<lambda>owner repo branch.
         if owner = ''u'' \<and> branch = ''develop'' \<and> (repo = ''A'' \<or> repo = ''B'')
         then Response 200 (Json (Some (''sha-'' @ repo)))
         else Response 404 (Json None)),
      tree_fetch = (\<lambda>owner repo sha.
         if sha = ''sha-A'' then Response 200 (Json (Some [blob ''main.go'' 100]))
         else if sha = ''sha-B''
           then Response 200 (Json (Some [blob ''cmd/b.go'' 50, blob ''src/lib.rs'' 30]))
         else Response 404 (Json None))\<rparr>"

definition no_sha_upstream :: upstream where
  "no_sha_upstream = demo_upstream\<lparr>branch_lookup := (\<lambda>owner repo branch. Response 200 (Json None))\<rparr>"

text \<open>The same service when every tree holds one empty Python file.\<close>

definition empty_file_upstream :: upstream where
  "empty_file_upstream =
     demo_upstream\<lparr>tree_fetch :=
       (\<lambda>owner repo sha. Response 200 (Json (Some [blob ''pkg/__init__.py'' 0])))\<rparr>"

text \<open>
  The same service when every tree holds a Python file of 10 bytes, an empty Python file
  and an empty file without a language.
\<close>

definition mixed_upstream :: upstream where
  "mixed_upstream =
     demo_upstream\<lparr>tree_fetch :=
       (\<lambda>owner repo sha. Response 200 (Json (Some
          [blob ''a.py'' 10, blob ''pkg/__init__.py'' 0, blob ''README'' 0])))\<rparr>"

definition demo_query :: query where
  "demo_query =
     \<lparr>q_user = Some ''u'', q_branch = None, q_exclude_repos = None, q_include_forks = None,
      q_include_archived = None, q_hide = None, q_langs_count = None, q_max_repos = None,
      q_debug = None\<rparr>"

text \<open>The same service with every branch lookup, or every tree fetch, answered by one status.\<close>

definition branch_status_upstream :: "nat \<Rightarrow> upstream" where
  "branch_status_upstream st = demo_upstream\<lparr>branch_lookup := (\<lambda>owner repo branch. Response st BadJson)\<rparr>"

definition tree_status_upstream :: "nat \<Rightarrow> upstream" where
  "tree_status_upstream st = demo_upstream\<lparr>tree_fetch := (\<lambda>owner repo sha. Response st BadJson)\<rparr>"

section \<open>Properties\<close>

subsection \<open>Objects\<close>

lemma or0_eq: "or0 x = (case x of None \<Rightarrow> 0 | Some v \<Rightarrow> v)"
  by (simp add: or0_def split: option.splits)

lemma map_of_set_prop: "map_of (set_prop k v ps) = (map_of ps)(k \<mapsto> v)"
  by (induction ps) (auto simp: fun_eq_iff)

lemma keys_set_prop:
  "map fst (set_prop k v ps) = (if k \<in> set (map fst ps) then map fst ps else map fst ps @ [k])"
  by (induction ps) auto

lemma distinct_set_prop: "distinct (map fst ps) \<Longrightarrow> distinct (map fst (set_prop k v ps))"
  by (simp add: keys_set_prop)

lemma filter_none: "\<not> list_ex P xs \<Longrightarrow> filter P xs = []"
  by (induction xs) auto

subsection \<open>The aggregator over one tree\<close>

lemma tree_step_lookup:
  "map_of (tree_step cat item tot) L =
     (if contributes cat L item then Some (or0 (map_of tot L) + size_or0 item) else map_of tot L)"
  by (auto simp: tree_step_def contributes_def size_or0_def get_prop_def map_of_set_prop
           split: option.splits)

lemma distinct_tree_step:
  "distinct (map fst tot) \<Longrightarrow> distinct (map fst (tree_step cat item tot))"
  by (auto simp: tree_step_def distinct_set_prop split: option.splits)

lemma tree_loop_lookup:
  "map_of (tree_loop cat tree tot) L =
     (if list_ex (contributes cat L) tree
      then Some (or0 (map_of tot L) + sum_list (map size_or0 (filter (contributes cat L) tree)))
      else map_of tot L)"
proof (induction tree arbitrary: tot)
  case Nil
  then show ?case by simp
next
  case (Cons item tree)
  show ?case
    by (simp add: Cons.IH tree_step_lookup or0_eq filter_none)
qed

lemma distinct_tree_loop:
  "distinct (map fst tot) \<Longrightarrow> distinct (map fst (tree_loop cat tree tot))"
  by (induction tree arbitrary: tot) (simp_all add: distinct_tree_step)

lemma aggregate_lookup:
  "map_of (aggregateByLanguageFromTree cat tree) L = expected_total cat tree L"
  unfolding aggregateByLanguageFromTree_def expected_total_def
  by (subst tree_loop_lookup) (simp add: or0_def)

lemma aggregate_distinct: "distinct (map fst (aggregateByLanguageFromTree cat tree))"
  by (simp add: aggregateByLanguageFromTree_def distinct_tree_loop)

lemma expected_total_mset:
  assumes "mset tree = mset tree'"
  shows "expected_total cat tree L = expected_total cat tree' L"
proof -
  have s: "set tree = set tree'" using assms by (rule mset_eq_setD)
  have "mset (map size_or0 (filter (contributes cat L) tree))
      = mset (map size_or0 (filter (contributes cat L) tree'))"
    using assms by (metis mset_filter mset_map)
  then have "sum_list (map size_or0 (filter (contributes cat L) tree))
      = sum_list (map size_or0 (filter (contributes cat L) tree'))"
    by (metis sum_mset_sum_list)
  then show ?thesis using s by (simp add: expected_total_def list_ex_iff)
qed

text \<open>
  Claim C1. For every list of tree entries, the object returned by
  \<^verbatim>\<open>aggregateByLanguageFromTree\<close> holds, for each language \<open>L\<close>, the sum of the sizes of
  exactly the entries that are blobs, have a numeric size and classify to \<open>L\<close>; a language
  with no such entry has no key, and no key occurs twice. Entries that are not blobs, have
  no numeric size or no language therefore contribute nothing.
\<close>

theorem aggregateByLanguageFromTree_totals:
  "map_of (aggregateByLanguageFromTree cat tree) L = expected_total cat tree L
   \<and> distinct (map fst (aggregateByLanguageFromTree cat tree))"
  using aggregate_lookup [of cat tree L] aggregate_distinct [of cat tree] by simp

text \<open>
  Claim C9. Reordering the entries of a tree does not change the totals: two lists with
  the same entries, each as often, give the same mapping from language to byte count.
  (The mapping is compared key by key; the order in which the keys were created is not
  part of it.)
\<close>

theorem aggregateByLanguageFromTree_permutation:
  "mset tree = mset tree' \<Longrightarrow>
   map_of (aggregateByLanguageFromTree cat tree) = map_of (aggregateByLanguageFromTree cat tree')"
proof (rule ext)
  fix L
  assume "mset tree = mset tree'"
  then have "expected_total cat tree L = expected_total cat tree' L"
    by (rule expected_total_mset)
  then show "map_of (aggregateByLanguageFromTree cat tree) L
           = map_of (aggregateByLanguageFromTree cat tree') L"
    by (simp only: aggregate_lookup)
qed

theorem aggregateByLanguageFromTree_permutation_witness:
  "mset [blob ''a.go'' 1, blob ''src/b.rs'' 2, blob ''c.go'' 3]
     = mset [blob ''c.go'' 3, blob ''a.go'' 1, blob ''src/b.rs'' 2]
   \<and> map_of (aggregateByLanguageFromTree demo_catalog
                [blob ''a.go'' 1, blob ''src/b.rs'' 2, blob ''c.go'' 3])
     = map_of (aggregateByLanguageFromTree demo_catalog
                [blob ''c.go'' 3, blob ''a.go'' 1, blob ''src/b.rs'' 2])"
proof -
  have h: "mset [blob ''a.go'' 1, blob ''src/b.rs'' 2, blob ''c.go'' 3]
             = mset [blob ''c.go'' 3, blob ''a.go'' 1, blob ''src/b.rs'' 2]"
    by (simp add: add_mset_commute)
  show ?thesis
    using h aggregateByLanguageFromTree_permutation [OF h, of demo_catalog] by blast
qed

subsection \<open>The resolver of one repository\<close>

lemma fetch_branch_not_ok:
  "branch_lookup up owner repo branch = Response bst bbody \<Longrightarrow> \<not> ok bst \<Longrightarrow>
   fetchRepoTreeByBranch up owner repo branch =
     (if bst = 404 then Inr [] else Inl (BranchLookupFailed owner repo branch bst))"
  by (simp add: fetchRepoTreeByBranch_def)

lemma fetch_no_sha:
  "branch_lookup up owner repo branch = Response bst (Json sha_opt) \<Longrightarrow> ok bst \<Longrightarrow>
   falsy sha_opt \<Longrightarrow> fetchRepoTreeByBranch up owner repo branch = Inr []"
  by (auto simp: fetchRepoTreeByBranch_def falsy_def)

lemma fetch_tree_not_ok:
  "branch_lookup up owner repo branch = Response bst (Json (Some sha)) \<Longrightarrow> ok bst \<Longrightarrow>
   sha \<noteq> [] \<Longrightarrow> tree_fetch up owner repo sha = Response tst tbody \<Longrightarrow> \<not> ok tst \<Longrightarrow>
   fetchRepoTreeByBranch up owner repo branch =
     (if tst = 409 then Inr [] else Inl (TreeFetchFailed owner repo sha tst))"
  by (simp add: fetchRepoTreeByBranch_def)

lemma not_ok_404: "\<not> ok 404"
  by (simp add: ok_def)

lemma not_ok_409: "\<not> ok 409"
  by (simp add: ok_def)

lemma repos_loop_error:
  "full \<in> set refs \<Longrightarrow> split_on CHR ''/'' full = owner # repo # others \<Longrightarrow>
   owner \<noteq> [] \<Longrightarrow> repo \<noteq> [] \<Longrightarrow> fetchRepoTreeByBranch up owner repo branch = Inl e \<Longrightarrow>
   \<exists>e'. repos_loop up cat refs branch grand = Inl e'"
proof (induction refs arbitrary: grand)
  case Nil
  then show ?case by simp
next
  case (Cons r refs)
  show ?case
  proof (cases "r = full")
    case True
    with Cons.prems show ?thesis by simp
  next
    case False
    with Cons.prems have "full \<in> set refs" by simp
    then have ih: "\<And>g. \<exists>e'. repos_loop up cat refs branch g = Inl e'"
      using Cons.IH Cons.prems by blast
    show ?thesis
      using ih by (auto split: list.splits sum.splits)
  qed
qed

lemma handler_aggregate_error:
  assumes "\<not> falsy pat" "\<not> falsy (q_user q)"
    and "fetchAllUserRepos up (with_default [] (q_user q)) (toBool (q_include_forks q) False)
           (toBool (q_include_archived q) False) = Inr listed"
    and "aggregateRepos up cat (repoFullNames_of q listed) (with_default ''develop'' (q_branch q)) = Inl e"
  shows "handler pat up cat q = \<lparr>res_status = 500, res_body = ErrorMessage e\<rparr>"
    and "handler_rev2 pat up cat q = \<lparr>res_status = 500, res_body = ErrorMessage e\<rparr>"
proof -
  have ne: "repoFullNames_of q listed \<noteq> []"
    using assms(4) by (auto simp: aggregateRepos_def)
  show "handler pat up cat q = \<lparr>res_status = 500, res_body = ErrorMessage e\<rparr>"
    using assms ne by (simp add: handler_def Let_def repoFullNames_of_def)
  show "handler_rev2 pat up cat q = \<lparr>res_status = 500, res_body = ErrorMessage e\<rparr>"
    using assms ne by (simp add: handler_rev2_def Let_def repoFullNames_of_def)
qed

text \<open>
  Claim C4. \<^verbatim>\<open>fetchRepoTreeByBranch\<close> returns the empty list, not an error, when the
  branch lookup answers 404 and when the tree fetch answers 409. Any other status outside
  200..299 of the branch lookup, or of the tree fetch, is thrown as an error; such an
  error of a repository that \<^verbatim>\<open>aggregateRepos\<close> processes makes \<^verbatim>\<open>aggregateRepos\<close> end
  with an error and no totals, and both handlers then answer 500 with the error and no
  card.
\<close>

theorem fetchRepoTreeByBranch_status_policy:
  "(branch_lookup up owner repo branch = Response 404 bbody \<longrightarrow>
      fetchRepoTreeByBranch up owner repo branch = Inr [])
   \<and> (branch_lookup up owner repo branch = Response bst (Json (Some sha)) \<and> ok bst \<and> sha \<noteq> [] \<and>
      tree_fetch up owner repo sha = Response 409 tbody \<longrightarrow>
      fetchRepoTreeByBranch up owner repo branch = Inr [])
   \<and> (branch_lookup up owner repo branch = Response bst bbody \<and> \<not> ok bst \<and> bst \<noteq> 404 \<longrightarrow>
      fetchRepoTreeByBranch up owner repo branch = Inl (BranchLookupFailed owner repo branch bst))
   \<and> (branch_lookup up owner repo branch = Response bst (Json (Some sha)) \<and> ok bst \<and> sha \<noteq> [] \<and>
      tree_fetch up owner repo sha = Response tst tbody \<and> \<not> ok tst \<and> tst \<noteq> 409 \<longrightarrow>
      fetchRepoTreeByBranch up owner repo branch = Inl (TreeFetchFailed owner repo sha tst))
   \<and> (full \<in> set refs \<and> split_on CHR ''/'' full = owner # repo # others \<and> owner \<noteq> [] \<and>
      repo \<noteq> [] \<and> fetchRepoTreeByBranch up owner repo branch = Inl e \<longrightarrow>
      (\<exists>e'. aggregateRepos up cat refs branch = Inl e'))
   \<and> (\<not> falsy pat \<and> \<not> falsy (q_user q) \<and>
      fetchAllUserRepos up (with_default [] (q_user q)) (toBool (q_include_forks q) False)
        (toBool (q_include_archived q) False) = Inr listed \<and>
      aggregateRepos up cat (repoFullNames_of q listed) (with_default ''develop'' (q_branch q)) = Inl e \<longrightarrow>
      handler pat up cat q = \<lparr>res_status = 500, res_body = ErrorMessage e\<rparr> \<and>
      handler_rev2 pat up cat q = \<lparr>res_status = 500, res_body = ErrorMessage e\<rparr>)"
proof (intro conjI impI)
  assume "branch_lookup up owner repo branch = Response 404 bbody"
  then show "fetchRepoTreeByBranch up owner repo branch = Inr []"
    using fetch_branch_not_ok [of up owner repo branch 404 bbody] not_ok_404 by simp
next
  assume "branch_lookup up owner repo branch = Response bst (Json (Some sha)) \<and> ok bst \<and> sha \<noteq> [] \<and>
      tree_fetch up owner repo sha = Response 409 tbody"
  then show "fetchRepoTreeByBranch up owner repo branch = Inr []"
    using fetch_tree_not_ok [of up owner repo branch bst sha 409 tbody] not_ok_409 by simp
next
  assume "branch_lookup up owner repo branch = Response bst bbody \<and> \<not> ok bst \<and> bst \<noteq> 404"
  then show "fetchRepoTreeByBranch up owner repo branch = Inl (BranchLookupFailed owner repo branch bst)"
    using fetch_branch_not_ok [of up owner repo branch bst bbody] by simp
next
  assume "branch_lookup up owner repo branch = Response bst (Json (Some sha)) \<and> ok bst \<and> sha \<noteq> [] \<and>
      tree_fetch up owner repo sha = Response tst tbody \<and> \<not> ok tst \<and> tst \<noteq> 409"
  then show "fetchRepoTreeByBranch up owner repo branch = Inl (TreeFetchFailed owner repo sha tst)"
    using fetch_tree_not_ok [of up owner repo branch bst sha tst tbody] by simp
next
  assume "full \<in> set refs \<and> split_on CHR ''/'' full = owner # repo # others \<and> owner \<noteq> [] \<and>
      repo \<noteq> [] \<and> fetchRepoTreeByBranch up owner repo branch = Inl e"
  then show "\<exists>e'. aggregateRepos up cat refs branch = Inl e'"
    unfolding aggregateRepos_def using repos_loop_error by blast
next
  assume a: "\<not> falsy pat \<and> \<not> falsy (q_user q) \<and>
      fetchAllUserRepos up (with_default [] (q_user q)) (toBool (q_include_forks q) False)
        (toBool (q_include_archived q) False) = Inr listed \<and>
      aggregateRepos up cat (repoFullNames_of q listed) (with_default ''develop'' (q_branch q)) = Inl e"
  then show "handler pat up cat q = \<lparr>res_status = 500, res_body = ErrorMessage e\<rparr>"
    using handler_aggregate_error(1) by blast
  from a show "handler_rev2 pat up cat q = \<lparr>res_status = 500, res_body = ErrorMessage e\<rparr>"
    using handler_aggregate_error(2) by blast
qed

theorem fetchRepoTreeByBranch_status_policy_witness:
  "fetchRepoTreeByBranch demo_upstream ''u'' ''Z'' ''develop'' = Inr []
   \<and> fetchRepoTreeByBranch (tree_status_upstream 409) ''u'' ''A'' ''develop'' = Inr []
   \<and> fetchRepoTreeByBranch (branch_status_upstream 500) ''u'' ''A'' ''develop''
       = Inl (BranchLookupFailed ''u'' ''A'' ''develop'' 500)
   \<and> fetchRepoTreeByBranch (tree_status_upstream 403) ''u'' ''A'' ''develop''
       = Inl (TreeFetchFailed ''u'' ''A'' ''sha-A'' 403)
   \<and> (\<exists>e'. aggregateRepos (tree_status_upstream 403) demo_catalog [''u/B'', ''u/A''] ''develop'' = Inl e')
   \<and> handler (Some ''token'') (tree_status_upstream 403) demo_catalog demo_query
       = \<lparr>res_status = 500, res_body = ErrorMessage (TreeFetchFailed ''u'' ''A'' ''sha-A'' 403)\<rparr>
   \<and> handler_rev2 (Some ''token'') (tree_status_upstream 403) demo_catalog demo_query
       = \<lparr>res_status = 500, res_body = ErrorMessage (TreeFetchFailed ''u'' ''A'' ''sha-A'' 403)\<rparr>"
proof -
  note policy = fetchRepoTreeByBranch_status_policy
  have b404: "branch_lookup demo_upstream ''u'' ''Z'' ''develop'' = Response 404 (Json None)"
    by (simp add: demo_upstream_def)
  have c1: "fetchRepoTreeByBranch demo_upstream ''u'' ''Z'' ''develop'' = Inr []"
    using policy [where up = demo_upstream and owner = "''u''" and repo = "''Z''"
        and branch = "''develop''" and bbody = "Json None"] b404 by blast
  have bA: "branch_lookup (tree_status_upstream st) ''u'' ''A'' ''develop''
              = Response 200 (Json (Some ''sha-A''))" for st
    by (simp add: tree_status_upstream_def demo_upstream_def)
  have tA: "tree_fetch (tree_status_upstream st) ''u'' ''A'' ''sha-A'' = Response st BadJson" for st
    by (simp add: tree_status_upstream_def)
  have ok200: "ok 200" by (simp add: ok_def)
  have nok403: "\<not> ok 403" "\<not> ok 500" by (simp_all add: ok_def)
  have c2: "fetchRepoTreeByBranch (tree_status_upstream 409) ''u'' ''A'' ''develop'' = Inr []"
    using policy [where up = "tree_status_upstream 409" and owner = "''u''" and repo = "''A''"
        and branch = "''develop''" and bst = 200 and sha = "''sha-A''" and tbody = BadJson]
      bA [of 409] tA [of 409] ok200 by simp
  have b500: "branch_lookup (branch_status_upstream 500) ''u'' ''A'' ''develop'' = Response 500 BadJson"
    by (simp add: branch_status_upstream_def)
  have c3: "fetchRepoTreeByBranch (branch_status_upstream 500) ''u'' ''A'' ''develop''
       = Inl (BranchLookupFailed ''u'' ''A'' ''develop'' 500)"
    using policy [where up = "branch_status_upstream 500" and owner = "''u''" and repo = "''A''"
        and branch = "''develop''" and bst = 500 and bbody = BadJson] b500 nok403 by simp
  have c4: "fetchRepoTreeByBranch (tree_status_upstream 403) ''u'' ''A'' ''develop''
       = Inl (TreeFetchFailed ''u'' ''A'' ''sha-A'' 403)"
    using policy [where up = "tree_status_upstream 403" and owner = "''u''" and repo = "''A''"
        and branch = "''develop''" and bst = 200 and sha = "''sha-A''" and tst = 403 and tbody = BadJson]
      bA [of 403] tA [of 403] ok200 nok403 by simp
  have sp: "split_on CHR ''/'' ''u/A'' = ''u'' # ''A'' # []" by simp
  have c5: "\<exists>e'. aggregateRepos (tree_status_upstream 403) demo_catalog [''u/B'', ''u/A''] ''develop'' = Inl e'"
    using policy [where up = "tree_status_upstream 403" and owner = "''u''" and repo = "''A''"
        and branch = "''develop''" and full = "''u/A''" and refs = "[''u/B'', ''u/A'']"
        and others = "[]" and e = "TreeFetchFailed ''u'' ''A'' ''sha-A'' 403" and cat = demo_catalog]
      sp c4 by simp
  have listed: "fetchAllUserRepos (tree_status_upstream 403) (with_default [] (q_user demo_query))
        (toBool (q_include_forks demo_query) False) (toBool (q_include_archived demo_query) False)
      = Inr [''u/A'', ''u/B'']"
    by code_simp
  have sel: "repoFullNames_of demo_query [''u/A'', ''u/B''] = [''u/A'', ''u/B'']"
    by code_simp
  have agg: "aggregateRepos (tree_status_upstream 403) demo_catalog [''u/A'', ''u/B'']
        (with_default ''develop'' (q_branch demo_query)) = Inl (TreeFetchFailed ''u'' ''A'' ''sha-A'' 403)"
    by code_simp
  have c6: "handler (Some ''token'') (tree_status_upstream 403) demo_catalog demo_query
       = \<lparr>res_status = 500, res_body = ErrorMessage (TreeFetchFailed ''u'' ''A'' ''sha-A'' 403)\<rparr>
     \<and> handler_rev2 (Some ''token'') (tree_status_upstream 403) demo_catalog demo_query
       = \<lparr>res_status = 500, res_body = ErrorMessage (TreeFetchFailed ''u'' ''A'' ''sha-A'' 403)\<rparr>"
    using policy [where up = "tree_status_upstream 403" and pat = "Some ''token''" and q = demo_query
        and listed = "[''u/A'', ''u/B'']" and cat = demo_catalog
        and e = "TreeFetchFailed ''u'' ''A'' ''sha-A'' 403"]
      listed sel agg by (simp add: falsy_def demo_query_def)
  from c1 c2 c3 c4 c5 c6 show ?thesis by simp
qed

text \<open>
  Claim C10. When the branch lookup succeeds but its payload has no commit SHA (none, or
  an empty one), \<^verbatim>\<open>fetchRepoTreeByBranch\<close> returns the empty list: no error is thrown,
  and the result does not depend on what the tree endpoint would answer, since it is not
  asked.
\<close>

theorem fetchRepoTreeByBranch_without_sha:
  "branch_lookup up owner repo branch = Response bst (Json sha_opt) \<Longrightarrow> ok bst \<Longrightarrow> falsy sha_opt \<Longrightarrow>
   fetchRepoTreeByBranch up owner repo branch = Inr [] \<and>
   fetchRepoTreeByBranch (up\<lparr>tree_fetch := tf\<rparr>) owner repo branch = Inr []"
  using fetch_no_sha [of up owner repo branch bst sha_opt]
    fetch_no_sha [of "up\<lparr>tree_fetch := tf\<rparr>" owner repo branch bst sha_opt]
  by simp

theorem fetchRepoTreeByBranch_without_sha_witness:
  "branch_lookup no_sha_upstream ''u'' ''A'' ''develop'' = Response 200 (Json None)
   \<and> ok 200 \<and> falsy None
   \<and> fetchRepoTreeByBranch no_sha_upstream ''u'' ''A'' ''develop'' = Inr []
   \<and> fetchRepoTreeByBranch (no_sha_upstream\<lparr>tree_fetch := (\<lambda>owner repo sha. Rejected)\<rparr>)
         ''u'' ''A'' ''develop'' = Inr []"
proof -
  have b: "branch_lookup no_sha_upstream ''u'' ''A'' ''develop'' = Response 200 (Json None)"
    by (simp add: no_sha_upstream_def)
  have o: "ok 200" by (simp add: ok_def)
  have f: "falsy None" by (simp add: falsy_def)
  show ?thesis
    using b o f fetchRepoTreeByBranch_without_sha [OF b o f, of "\<lambda>owner repo sha. Rejected"]
    by blast
qed


subsection \<open>The aggregator over the repositories\<close>

lemma add_opt_assoc: "add_opt (add_opt a b) c = add_opt a (add_opt b c)"
  by (simp add: add_opt_def split: option.splits)

lemma add_opt_None [simp]: "add_opt None b = b" "add_opt a None = a"
  by (simp_all add: add_opt_def split: option.splits)

lemma merge_loop_lookup:
  "distinct (map fst t) \<Longrightarrow> map_of (merge_loop t grand) L = add_opt (map_of grand L) (map_of t L)"
proof (induction t arbitrary: grand)
  case Nil
  then show ?case by simp
next
  case (Cons p t)
  obtain k v where p: "p = (k, v)" by (cases p)
  from Cons.prems p have k: "map_of t k = None" and d: "distinct (map fst t)"
    by (auto simp: map_of_eq_None_iff)
  show ?case
    using k by (simp add: p Cons.IH [OF d] map_of_set_prop get_prop_def or0_eq add_opt_def
        split: option.splits)
qed

lemma distinct_merge_loop:
  "distinct (map fst grand) \<Longrightarrow> distinct (map fst (merge_loop t grand))"
  by (induction t arbitrary: grand) (auto simp: distinct_set_prop)

lemma repo_totals_distinct: "repo_totals up cat branch full = Inr t \<Longrightarrow> distinct (map fst t)"
  by (auto simp: repo_totals_def aggregate_distinct split: list.splits if_splits sum.splits)

lemma aggregate_Nil: "aggregateByLanguageFromTree cat [] = []"
  by (simp add: aggregateByLanguageFromTree_def)

lemma repos_loop_step_ok:
  "repo_totals up cat branch full = Inr t \<Longrightarrow>
   repos_loop up cat (full # rest) branch grand = repos_loop up cat rest branch (merge_loop t grand)"
  by (auto simp: repo_totals_def aggregate_Nil split: list.splits if_splits sum.splits)

lemma repos_loop_step_error:
  "repo_totals up cat branch full = Inl e \<Longrightarrow> repos_loop up cat (full # rest) branch grand = Inl e"
  by (auto simp: repo_totals_def split: list.splits if_splits sum.splits)

lemma pointwise_sum_Nil: "pointwise_sum [] L = None"
  by (simp add: pointwise_sum_def)

lemma sum_absent:
  "\<not> list_ex (\<lambda>t. map_of t L \<noteq> None) ts \<Longrightarrow> sum_list (map (\<lambda>t. value_or0 t L) ts) = 0"
  by (induction ts) (auto simp: value_or0_def)

lemma pointwise_sum_Cons: "pointwise_sum (t # ts) L = add_opt (map_of t L) (pointwise_sum ts L)"
proof (cases "list_ex (\<lambda>t. map_of t L \<noteq> None) ts")
  case True
  then show ?thesis
    by (simp add: pointwise_sum_def add_opt_def value_or0_def split: option.splits)
next
  case False
  then show ?thesis
    using sum_absent [OF False]
    by (simp add: pointwise_sum_def add_opt_def value_or0_def split: option.splits)
qed

lemma repos_loop_ok:
  "all_repo_totals up cat branch refs = Inr ts \<Longrightarrow> distinct (map fst grand) \<Longrightarrow>
   \<exists>g. repos_loop up cat refs branch grand = Inr g \<and> distinct (map fst g) \<and>
       (\<forall>L. map_of g L = add_opt (map_of grand L) (pointwise_sum ts L))"
proof (induction refs arbitrary: ts grand)
  case Nil
  then show ?case by (auto simp: pointwise_sum_Nil)
next
  case (Cons full rest)
  from Cons.prems(1) obtain t ts' where
    t: "repo_totals up cat branch full = Inr t" and
    r: "all_repo_totals up cat branch rest = Inr ts'" and ts: "ts = t # ts'"
    by (auto split: sum.splits)
  have dt: "distinct (map fst t)" using t by (rule repo_totals_distinct)
  have dg: "distinct (map fst (merge_loop t grand))" using Cons.prems(2) by (rule distinct_merge_loop)
  from Cons.IH [OF r dg] obtain g where
    g: "repos_loop up cat rest branch (merge_loop t grand) = Inr g" "distinct (map fst g)"
       "\<forall>L. map_of g L = add_opt (map_of (merge_loop t grand) L) (pointwise_sum ts' L)"
    by blast
  have "repos_loop up cat (full # rest) branch grand = Inr g"
    using repos_loop_step_ok [OF t] g(1) by simp
  moreover have "\<forall>L. map_of g L = add_opt (map_of grand L) (pointwise_sum ts L)"
    using g(3) by (simp add: ts pointwise_sum_Cons merge_loop_lookup [OF dt] add_opt_assoc)
  ultimately show ?case using g(2) by blast
qed

lemma repos_loop_fail:
  "all_repo_totals up cat branch refs = Inl e \<Longrightarrow> repos_loop up cat refs branch grand = Inl e"
proof (induction refs arbitrary: grand)
  case Nil
  then show ?case by simp
next
  case (Cons full rest)
  show ?case
  proof (cases "repo_totals up cat branch full")
    case (Inl e')
    with Cons.prems have "e' = e" by simp
    with Inl show ?thesis using repos_loop_step_error [of up cat branch full e rest grand] by blast
  next
    case (Inr t)
    with Cons.prems have "all_repo_totals up cat branch rest = Inl e"
      by (auto split: sum.splits)
    then have "repos_loop up cat rest branch (merge_loop t grand) = Inl e"
      by (rule Cons.IH)
    then show ?thesis using repos_loop_step_ok [OF Inr, of rest grand] by (simp only:)
  qed
qed

lemma aggregateRepos_ok:
  "all_repo_totals up cat branch refs = Inr ts \<Longrightarrow>
   \<exists>g. aggregateRepos up cat refs branch = Inr g \<and> distinct (map fst g) \<and>
       (\<forall>L. map_of g L = pointwise_sum ts L)"
  using repos_loop_ok [of up cat branch refs ts "[]"] by (simp add: aggregateRepos_def)

lemma aggregateRepos_fail:
  "all_repo_totals up cat branch refs = Inl e \<Longrightarrow> aggregateRepos up cat refs branch = Inl e"
  by (simp add: aggregateRepos_def repos_loop_fail)

lemma all_repo_totals_Inr_iff:
  "all_repo_totals up cat branch refs = Inr ts \<longleftrightarrow>
   (\<forall>r\<in>set refs. \<exists>t. repo_totals up cat branch r = Inr t) \<and>
   ts = map (\<lambda>r. case repo_totals up cat branch r of Inl e \<Rightarrow> [] | Inr t \<Rightarrow> t) refs"
proof (induction refs arbitrary: ts)
  case Nil
  then show ?case by auto
next
  case (Cons full rest)
  show ?case
  proof (cases "repo_totals up cat branch full")
    case (Inl e)
    then show ?thesis by auto
  next
    case (Inr t)
    show ?thesis
    proof (cases "all_repo_totals up cat branch rest")
      case (Inl e)
      with Cons.IH have "\<not> (\<forall>r\<in>set rest. \<exists>t. repo_totals up cat branch r = Inr t)"
        by auto
      with Inl Inr show ?thesis by auto
    next
      case r: (Inr ts')
      with Cons.IH [of ts'] Inr show ?thesis by auto
    qed
  qed
qed

lemma pointwise_sum_mset:
  assumes "mset ts = mset ts'"
  shows "pointwise_sum ts L = pointwise_sum ts' L"
proof -
  have s: "set ts = set ts'" using assms by (rule mset_eq_setD)
  have "mset (map (\<lambda>t. value_or0 t L) ts) = mset (map (\<lambda>t. value_or0 t L) ts')"
    using assms by (metis mset_map)
  then have "sum_list (map (\<lambda>t. value_or0 t L) ts) = sum_list (map (\<lambda>t. value_or0 t L) ts')"
    by (metis sum_mset_sum_list)
  then show ?thesis using s by (simp add: pointwise_sum_def list_ex_iff)
qed

lemma all_repo_totals_perm:
  assumes "mset refs = mset refs'" "all_repo_totals up cat branch refs = Inr ts"
  shows "\<exists>ts'. all_repo_totals up cat branch refs' = Inr ts' \<and> mset ts' = mset ts"
proof -
  let ?f = "\<lambda>r. case repo_totals up cat branch r of Inl e \<Rightarrow> [] | Inr t \<Rightarrow> t"
  have s: "set refs = set refs'" using assms(1) by (rule mset_eq_setD)
  from assms(2) have a: "\<forall>r\<in>set refs. \<exists>t. repo_totals up cat branch r = Inr t" and ts: "ts = map ?f refs"
    by (simp_all add: all_repo_totals_Inr_iff)
  have "all_repo_totals up cat branch refs' = Inr (map ?f refs')"
    using a s by (simp add: all_repo_totals_Inr_iff)
  moreover have "mset (map ?f refs') = mset ts"
    using assms(1) ts by (metis mset_map)
  ultimately show ?thesis by blast
qed

lemma all_repo_totals_perm_fail:
  assumes "mset refs = mset refs'" "all_repo_totals up cat branch refs = Inl e"
  shows "\<exists>e'. all_repo_totals up cat branch refs' = Inl e'"
proof (cases "all_repo_totals up cat branch refs'")
  case (Inl e')
  then show ?thesis by blast
next
  case (Inr ts')
  with all_repo_totals_perm [OF assms(1)[symmetric] Inr] assms(2) show ?thesis by auto
qed

lemma aggregateRepos_perm:
  assumes "mset refs = mset refs'"
  shows "(case (aggregateRepos up cat refs branch, aggregateRepos up cat refs' branch) of
            (Inr g, Inr g') \<Rightarrow> map_of g = map_of g'
          | (Inl e, Inl e') \<Rightarrow> True
          | _ \<Rightarrow> False)"
proof (cases "all_repo_totals up cat branch refs")
  case (Inl e)
  from all_repo_totals_perm_fail [OF assms Inl] obtain e' where
    "all_repo_totals up cat branch refs' = Inl e'" by blast
  then show ?thesis using Inl by (simp add: aggregateRepos_fail)
next
  case (Inr ts)
  from all_repo_totals_perm [OF assms Inr] obtain ts' where
    ts': "all_repo_totals up cat branch refs' = Inr ts'" "mset ts' = mset ts" by blast
  from aggregateRepos_ok [OF Inr] obtain g where
    g: "aggregateRepos up cat refs branch = Inr g" "\<forall>L. map_of g L = pointwise_sum ts L" by blast
  from aggregateRepos_ok [OF ts'(1)] obtain g' where
    g': "aggregateRepos up cat refs' branch = Inr g'" "\<forall>L. map_of g' L = pointwise_sum ts' L" by blast
  have "map_of g = map_of g'"
    using g(2) g'(2) pointwise_sum_mset [OF ts'(2)] by (simp add: fun_eq_iff)
  then show ?thesis by (simp add: g(1) g'(1))
qed


lemma map_of_example:
  assumes "\<forall>L. map_of g L = add_opt (m1 L) (add_opt (m2 L) None)"
    and "m1 = [''Go'' \<mapsto> 100]" and "m2 = [''Go'' \<mapsto> 50, ''Rust'' \<mapsto> 30]"
  shows "map_of g = [''Go'' \<mapsto> 150, ''Rust'' \<mapsto> (30::int)]"
proof (rule ext)
  fix L
  show "map_of g L = [''Go'' \<mapsto> 150, ''Rust'' \<mapsto> (30::int)] L"
    using assms by (simp add: add_opt_def)
qed

lemma map_of_example_swapped:
  assumes "\<forall>L. map_of g L = add_opt (m2 L) (add_opt (m1 L) None)"
    and "m1 = [''Go'' \<mapsto> 100]" and "m2 = [''Go'' \<mapsto> 50, ''Rust'' \<mapsto> 30]"
  shows "map_of g = [''Go'' \<mapsto> 150, ''Rust'' \<mapsto> (30::int)]"
proof (rule ext)
  fix L
  show "map_of g L = [''Go'' \<mapsto> 150, ''Rust'' \<mapsto> (30::int)] L"
    using assms by (simp add: add_opt_def)
qed

lemma aggregateRepos_example:
  assumes a: "repo_totals up cat branch a = Inr ta" "map_of ta = [''Go'' \<mapsto> 100]"
    and b: "repo_totals up cat branch b = Inr tb" "map_of tb = [''Go'' \<mapsto> 50, ''Rust'' \<mapsto> 30]"
  shows "\<exists>g g'. aggregateRepos up cat [a, b] branch = Inr g \<and>
                aggregateRepos up cat [b, a] branch = Inr g' \<and>
                map_of g = [''Go'' \<mapsto> 150, ''Rust'' \<mapsto> 30] \<and>
                map_of g' = [''Go'' \<mapsto> 150, ''Rust'' \<mapsto> 30]"
proof -
  have ab: "all_repo_totals up cat branch [a, b] = Inr [ta, tb]"
    and ba: "all_repo_totals up cat branch [b, a] = Inr [tb, ta]"
    using a(1) b(1) by simp_all
  from aggregateRepos_ok [OF ab] obtain g where
    g: "aggregateRepos up cat [a, b] branch = Inr g" "\<forall>L. map_of g L = pointwise_sum [ta, tb] L"
    by blast
  from aggregateRepos_ok [OF ba] obtain g' where
    g': "aggregateRepos up cat [b, a] branch = Inr g'" "\<forall>L. map_of g' L = pointwise_sum [tb, ta] L"
    by blast
  have "map_of g = [''Go'' \<mapsto> 150, ''Rust'' \<mapsto> 30]"
    using g(2) a(2) b(2)
    by (intro map_of_example [of g "map_of ta" "map_of tb"])
       (simp_all add: pointwise_sum_Cons pointwise_sum_Nil)
  moreover have "map_of g' = [''Go'' \<mapsto> 150, ''Rust'' \<mapsto> 30]"
    using g'(2) a(2) b(2)
    by (intro map_of_example_swapped [of g' "map_of tb" "map_of ta"])
       (simp_all add: pointwise_sum_Cons pointwise_sum_Nil)
  ultimately show ?thesis using g(1) g'(1) by blast
qed

text \<open>
  Claim C2. Whenever every reference resolves, \<^verbatim>\<open>aggregateRepos\<close> returns totals that
  are, key by key, the sum of the per-repository totals, with no key twice; when one does
  not resolve it ends with that error. Processing the same references in another order
  gives the same mapping (or fails as well). Over a repository with 100 bytes of Go and
  one with 50 bytes of Go and 30 of Rust the result is 150 bytes of Go and 30 of Rust, in
  either order.
\<close>

theorem aggregateRepos_pointwise_sum:
  "(all_repo_totals up cat branch refs = Inr ts \<longrightarrow>
      (\<exists>grand. aggregateRepos up cat refs branch = Inr grand \<and> distinct (map fst grand) \<and>
         (\<forall>L. map_of grand L = pointwise_sum ts L)))
   \<and> (all_repo_totals up cat branch refs = Inl e \<longrightarrow> aggregateRepos up cat refs branch = Inl e)
   \<and> (mset refs = mset refs' \<longrightarrow>
        (case (aggregateRepos up cat refs branch, aggregateRepos up cat refs' branch) of
           (Inr g, Inr g') \<Rightarrow> map_of g = map_of g'
         | (Inl e1, Inl e2) \<Rightarrow> True
         | _ \<Rightarrow> False))
   \<and> (repo_totals up cat branch a = Inr ta \<and> map_of ta = [''Go'' \<mapsto> 100] \<and>
      repo_totals up cat branch b = Inr tb \<and> map_of tb = [''Go'' \<mapsto> 50, ''Rust'' \<mapsto> 30] \<longrightarrow>
        (\<exists>g g'. aggregateRepos up cat [a, b] branch = Inr g \<and>
                aggregateRepos up cat [b, a] branch = Inr g' \<and>
                map_of g = [''Go'' \<mapsto> 150, ''Rust'' \<mapsto> 30] \<and>
                map_of g' = [''Go'' \<mapsto> 150, ''Rust'' \<mapsto> 30]))"
proof (intro conjI impI)
  assume "all_repo_totals up cat branch refs = Inr ts"
  then show "\<exists>grand. aggregateRepos up cat refs branch = Inr grand \<and> distinct (map fst grand) \<and>
         (\<forall>L. map_of grand L = pointwise_sum ts L)"
    by (rule aggregateRepos_ok)
next
  assume "all_repo_totals up cat branch refs = Inl e"
  then show "aggregateRepos up cat refs branch = Inl e"
    by (rule aggregateRepos_fail)
next
  assume "mset refs = mset refs'"
  then show "case (aggregateRepos up cat refs branch, aggregateRepos up cat refs' branch) of
           (Inr g, Inr g') \<Rightarrow> map_of g = map_of g'
         | (Inl e1, Inl e2) \<Rightarrow> True
         | _ \<Rightarrow> False"
    by (rule aggregateRepos_perm)
next
  assume "repo_totals up cat branch a = Inr ta \<and> map_of ta = [''Go'' \<mapsto> 100] \<and>
      repo_totals up cat branch b = Inr tb \<and> map_of tb = [''Go'' \<mapsto> 50, ''Rust'' \<mapsto> 30]"
  then show "\<exists>g g'. aggregateRepos up cat [a, b] branch = Inr g \<and>
                aggregateRepos up cat [b, a] branch = Inr g' \<and>
                map_of g = [''Go'' \<mapsto> 150, ''Rust'' \<mapsto> 30] \<and>
                map_of g' = [''Go'' \<mapsto> 150, ''Rust'' \<mapsto> 30]"
    using aggregateRepos_example [of up cat branch a ta b tb] by blast
qed

theorem aggregateRepos_pointwise_sum_witness:
  "repo_totals demo_upstream demo_catalog ''develop'' ''u/A'' = Inr [(''Go'', 100)]
   \<and> repo_totals demo_upstream demo_catalog ''develop'' ''u/B'' = Inr [(''Go'', 50), (''Rust'', 30)]
   \<and> (\<exists>g g'. aggregateRepos demo_upstream demo_catalog [''u/A'', ''u/B''] ''develop'' = Inr g \<and>
              aggregateRepos demo_upstream demo_catalog [''u/B'', ''u/A''] ''develop'' = Inr g' \<and>
              map_of g = [''Go'' \<mapsto> 150, ''Rust'' \<mapsto> 30] \<and>
              map_of g' = [''Go'' \<mapsto> 150, ''Rust'' \<mapsto> 30])
   \<and> aggregateRepos demo_upstream demo_catalog [''u/A'', ''u/B''] ''develop''
       = Inr [(''Go'', 150), (''Rust'', 30)]
   \<and> aggregateRepos demo_upstream demo_catalog [''u/B'', ''u/A''] ''develop''
       = Inr [(''Go'', 150), (''Rust'', 30)]"
proof -
  have ra: "repo_totals demo_upstream demo_catalog ''develop'' ''u/A'' = Inr [(''Go'', 100)]"
    by code_simp
  have rb: "repo_totals demo_upstream demo_catalog ''develop'' ''u/B''
              = Inr [(''Go'', 50), (''Rust'', 30)]"
    by code_simp
  have ma: "map_of [(''Go'', 100::int)] = [''Go'' \<mapsto> 100]" by simp
  have mb: "map_of [(''Go'', 50::int), (''Rust'', 30)] = [''Go'' \<mapsto> 50, ''Rust'' \<mapsto> 30]"
    by (rule ext) simp
  have ex: "\<exists>g g'. aggregateRepos demo_upstream demo_catalog [''u/A'', ''u/B''] ''develop'' = Inr g \<and>
              aggregateRepos demo_upstream demo_catalog [''u/B'', ''u/A''] ''develop'' = Inr g' \<and>
              map_of g = [''Go'' \<mapsto> 150, ''Rust'' \<mapsto> 30] \<and>
              map_of g' = [''Go'' \<mapsto> 150, ''Rust'' \<mapsto> 30]"
    using aggregateRepos_pointwise_sum [where up = demo_upstream and cat = demo_catalog
        and branch = "''develop''" and a = "''u/A''" and b = "''u/B''"
        and ta = "[(''Go'', 100)]" and tb = "[(''Go'', 50), (''Rust'', 30)]"]
      ra rb ma mb by blast
  have ab: "aggregateRepos demo_upstream demo_catalog [''u/A'', ''u/B''] ''develop''
       = Inr [(''Go'', 150), (''Rust'', 30)]"
    by code_simp
  have ba: "aggregateRepos demo_upstream demo_catalog [''u/B'', ''u/A''] ''develop''
       = Inr [(''Go'', 150), (''Rust'', 30)]"
    by code_simp
  from ra rb ex ab ba show ?thesis by blast
qed


subsection \<open>Hiding, ranking and shares\<close>

lemma hide_loop_filter:
  "hide_loop ks hl tot = filter (\<lambda>p. \<not> (fst p \<in> set ks \<and> hidden hl (fst p))) tot"
proof (induction ks arbitrary: tot)
  case Nil
  then show ?case by simp
next
  case (Cons k ks)
  show ?case
    by (auto simp: Cons.IH delete_prop_def hidden_def intro: filter_cong)
qed

lemma hide_totals_filter:
  "hide_totals hl tot = filter (\<lambda>p. \<not> hidden hl (fst p)) tot"
  unfolding hide_totals_def hide_loop_filter
  by (rule filter_cong) auto

lemma top_entries_eq:
  "top_entries tot hl n = take (nat n) (sort_key (\<lambda>p. - snd p) (filter (\<lambda>p. \<not> hidden hl (fst p)) tot))"
  by (simp add: top_entries_def sorted_entries_def hide_totals_filter)

lemma set_top_entries: "set (top_entries tot hl n) \<subseteq> {p \<in> set tot. \<not> hidden hl (fst p)}"
  using set_take_subset [of "nat n" "sort_key (\<lambda>p. - snd p) (filter (\<lambda>p. \<not> hidden hl (fst p)) tot)"]
  by (simp add: top_entries_eq)

lemma length_top_entries:
  "length (top_entries tot hl n) = min (nat n) (length (filter (\<lambda>p. \<not> hidden hl (fst p)) tot))"
  by (simp add: top_entries_eq min.commute)

lemma percent_items_fields:
  "map (\<lambda>i. (name i, bytes i)) (percent_items tops) = tops"
  by (simp add: percent_items_def comp_def case_prod_unfold)

lemma colour_items_fields:
  "map (\<lambda>i. (name i, bytes i)) (colour_items cat tops) = tops"
  by (simp add: colour_items_def comp_def case_prod_unfold)

lemma foldl_add_snd: "foldl (\<lambda>acc p. acc + snd p) (a::int) xs = a + sum_list (map snd xs)"
  by (induction xs arbitrary: a) auto

lemma totalBytes_sum: "totalBytes tops = sum_list (map snd tops)"
  by (simp add: totalBytes_def foldl_add_snd)

lemma bytes_percent_items: "map bytes (percent_items tops) = map snd tops"
  by (simp add: percent_items_def case_prod_unfold comp_def)

lemma names_percent_items: "map name (percent_items tops) = map fst tops"
  by (simp add: percent_items_def case_prod_unfold comp_def)

lemma percent_of_item:
  "i \<in> set (percent_items tops) \<Longrightarrow>
   percent i = (if sum_list (map snd tops) = 0 then 0
                else 100 * of_int (bytes i) / of_int (sum_list (map snd tops)))"
  by (auto simp: percent_items_def totalBytes_sum)

lemma ranked_items_entries:
  "map (\<lambda>i. (name i, bytes i)) (ranked_items tot hide lc)
     = take (nat (topN_of lc))
         (sort_key (\<lambda>p. - snd p) (filter (\<lambda>p. \<not> hidden (lowered_set (Some hide)) (fst p)) tot))"
  by (simp add: ranked_items_def percent_items_fields top_entries_eq)

lemma ranked_items_not_hidden:
  "list_all (\<lambda>i. \<not> hidden (lowered_set (Some hide)) (name i)) (ranked_items tot hide lc)"
proof -
  have "set (map name (ranked_items tot hide lc))
          \<subseteq> fst ` {p \<in> set tot. \<not> hidden (lowered_set (Some hide)) (fst p)}"
    unfolding ranked_items_def names_percent_items
    using set_top_entries [of tot "lowered_set (Some hide)" "topN_of lc"] by auto
  then show ?thesis by (auto simp: list_all_iff)
qed

lemma ranked_items_percent:
  "list_all (\<lambda>i. percent i =
       (if sum_list (map bytes (ranked_items tot hide lc)) = 0 then 0
        else 100 * of_int (bytes i) / of_int (sum_list (map bytes (ranked_items tot hide lc)))))
     (ranked_items tot hide lc)"
  unfolding list_all_iff
  by (auto simp: ranked_items_def bytes_percent_items dest: percent_of_item)

lemma topN_bounds: "1 \<le> topN_of lc" "topN_of lc \<le> 20"
  by (simp_all add: topN_of_def clampValue_def)

lemma length_ranked_items: "length (ranked_items tot hide lc) \<le> nat (topN_of lc)"
  by (simp add: ranked_items_def percent_items_def length_top_entries)

lemma length_ranked_colour_items: "length (ranked_colour_items cat tot hide lc) \<le> nat (topN_of lc)"
  by (simp add: ranked_colour_items_def colour_items_def length_top_entries)


lemma topN_of_number: "parseInt lc = Some n \<Longrightarrow> n \<noteq> 0 \<Longrightarrow> topN_of lc = max 1 (min n 20)"
  by (simp add: topN_of_def or_num_def clampValue_def)

lemma topN_of_default: "parseInt lc = None \<or> parseInt lc = Some 0 \<Longrightarrow> topN_of lc = 6"
  by (auto simp: topN_of_def or_num_def clampValue_def)

subsection \<open>The byte count of a ranked language\<close>

lemma top_entries_subset: "set (top_entries tot hl n) \<subseteq> set tot"
  using set_top_entries [of tot hl n] by auto

lemma expected_total_Nil: "expected_total cat [] L = None"
  by (simp add: expected_total_def)

lemma expected_total_append:
  "expected_total cat (xs @ ys) L = add_opt (expected_total cat xs L) (expected_total cat ys L)"
  by (simp add: expected_total_def add_opt_def filter_none)

lemma repo_totals_lookup:
  "repo_totals up cat branch full = Inr t \<Longrightarrow>
   map_of t L = expected_total cat (repo_tree up branch full) L"
  by (auto simp: repo_totals_def repo_tree_def aggregate_lookup expected_total_Nil
      split: list.splits if_splits sum.splits)

lemma repos_loop_lookup:
  "repos_loop up cat refs branch grand = Inr g \<Longrightarrow> distinct (map fst grand) \<Longrightarrow>
   distinct (map fst g) \<and>
   map_of g L = add_opt (map_of grand L)
                  (expected_total cat (concat (map (repo_tree up branch) refs)) L)"
proof (induction refs arbitrary: grand)
  case Nil
  then show ?case by (simp add: expected_total_Nil)
next
  case (Cons full rest)
  show ?case
  proof (cases "repo_totals up cat branch full")
    case (Inl e)
    then have "repos_loop up cat (full # rest) branch grand = Inl e"
      by (rule repos_loop_step_error)
    with Cons.prems(1) show ?thesis by simp
  next
    case (Inr t)
    have dt: "distinct (map fst t)" using Inr by (rule repo_totals_distinct)
    have dg: "distinct (map fst (merge_loop t grand))"
      using Cons.prems(2) by (rule distinct_merge_loop)
    have "repos_loop up cat rest branch (merge_loop t grand) = Inr g"
      using repos_loop_step_ok [OF Inr, of rest grand] Cons.prems(1) by simp
    from Cons.IH [OF this dg] have
      d: "distinct (map fst g)" and
      m: "map_of g L = add_opt (map_of (merge_loop t grand) L)
                  (expected_total cat (concat (map (repo_tree up branch) rest)) L)"
      by simp_all
    have "map_of g L = add_opt (map_of grand L)
                  (expected_total cat (concat (map (repo_tree up branch) (full # rest))) L)"
      by (simp add: m merge_loop_lookup [OF dt] repo_totals_lookup [OF Inr]
          expected_total_append add_opt_assoc)
    with d show ?thesis by simp
  qed
qed

lemma aggregateRepos_lookup:
  assumes "aggregateRepos up cat refs branch = Inr tot"
  shows "distinct (map fst tot)"
    and "map_of tot L = expected_total cat (concat (map (repo_tree up branch) refs)) L"
  using repos_loop_lookup [of up cat refs branch "[]" tot L] assms
  by (simp_all add: aggregateRepos_def)

lemma sum_positive_iff:
  "list_all (\<lambda>e. 0 \<le> f e) xs \<Longrightarrow> (0 < sum_list (map f xs)) = list_ex (\<lambda>e. 0 < (f e :: int)) xs"
proof (induction xs)
  case Nil
  then show ?case by simp
next
  case (Cons x xs)
  from Cons.prems have x: "0 \<le> f x" and rest: "list_all (\<lambda>e. 0 \<le> f e) xs"
    by simp_all
  have s: "0 \<le> sum_list (map f xs)"
    using rest by (intro sum_list_nonneg) (auto simp: list_all_iff)
  have ih: "(0 < sum_list (map f xs)) = list_ex (\<lambda>e. 0 < f e) xs"
    using rest by (rule Cons.IH)
  have "(0 < f x + sum_list (map f xs)) = (0 < f x \<or> 0 < sum_list (map f xs))"
    using x s by linarith
  then show ?case
    by (simp add: ih [symmetric])
qed

lemma entry_as_counted:
  assumes "aggregateRepos up cat refs branch = Inr tot" "(nm, b) \<in> set tot"
  shows "counted_entries up cat branch refs nm \<noteq> [] \<and>
         b = sum_list (map size_or0 (counted_entries up cat branch refs nm)) \<and>
         (list_all (\<lambda>e. 0 \<le> size_or0 e) (counted_entries up cat branch refs nm) \<longrightarrow>
            (0 < b) = list_ex (\<lambda>e. 0 < size_or0 e) (counted_entries up cat branch refs nm))"
proof -
  have "map_of tot nm = Some b"
    using aggregateRepos_lookup(1) [OF assms(1)] assms(2) by simp
  then have e: "expected_total cat (concat (map (repo_tree up branch) refs)) nm = Some b"
    using aggregateRepos_lookup(2) [OF assms(1), of nm] by simp
  then have ne: "counted_entries up cat branch refs nm \<noteq> []"
    and b: "b = sum_list (map size_or0 (counted_entries up cat branch refs nm))"
    by (auto simp: expected_total_def counted_entries_def list_ex_iff filter_empty_conv
        split: if_splits)
  show ?thesis
    using ne b sum_positive_iff [of size_or0 "counted_entries up cat branch refs nm"] by simp
qed


lemma ranked_entry:
  "i \<in> set (ranked_items tot hide lc) \<Longrightarrow> (name i, bytes i) \<in> set tot"
proof -
  assume "i \<in> set (ranked_items tot hide lc)"
  then have "(name i, bytes i) \<in> set (map (\<lambda>i. (name i, bytes i)) (ranked_items tot hide lc))"
    by force
  then have "(name i, bytes i) \<in> set (top_entries tot (lowered_set (Some hide)) (topN_of lc))"
    by (simp only: ranked_items_def percent_items_fields)
  then show ?thesis using top_entries_subset by blast
qed

lemma ranked_colour_entry:
  "i \<in> set (ranked_colour_items cat tot hide lc) \<Longrightarrow> (name i, bytes i) \<in> set tot"
proof -
  assume "i \<in> set (ranked_colour_items cat tot hide lc)"
  then have "(name i, bytes i)
      \<in> set (map (\<lambda>i. (name i, bytes i)) (ranked_colour_items cat tot hide lc))"
    by force
  then have "(name i, bytes i) \<in> set (top_entries tot (lowered_set (Some hide)) (topN_of lc))"
    by (simp only: ranked_colour_items_def colour_items_fields)
  then show ?thesis using top_entries_subset by blast
qed

text \<open>
  Claim C3. The ranked items are the entries of the totals whose lower-cased name is not
  in the hide set, sorted by size, greatest first, and cut to the first \<open>topN\<close>: a hidden
  language is removed before the sort and before the cut, so none is among the items. The
  share of an item is 100 times its size over the sum of the sizes of the items returned
  (0 when that sum is 0), not over the grand total. Hiding \<open>Go\<close> with \<open>topN = 1\<close> on
  150 bytes of Go, 30 of Rust and 10 of Python leaves the single item Rust, 30 bytes, 100
  per cent.
\<close>

theorem ranked_items_hide_then_rank:
  "map (\<lambda>i. (name i, bytes i)) (ranked_items tot hide lc)
     = take (nat (topN_of lc))
         (sort_key (\<lambda>p. - snd p) (filter (\<lambda>p. \<not> hidden (lowered_set (Some hide)) (fst p)) tot))
   \<and> list_all (\<lambda>i. \<not> hidden (lowered_set (Some hide)) (name i)) (ranked_items tot hide lc)
   \<and> list_all (\<lambda>i. percent i =
         (if sum_list (map bytes (ranked_items tot hide lc)) = 0 then 0
          else 100 * of_int (bytes i) / of_int (sum_list (map bytes (ranked_items tot hide lc)))))
       (ranked_items tot hide lc)
   \<and> ranked_items [(''Go'', 150), (''Rust'', 30), (''Python'', 10)] ''Go'' ''1''
       = [\<lparr>name = ''Rust'', bytes = 30, percent = 100\<rparr>]"
proof (intro conjI)
  show "map (\<lambda>i. (name i, bytes i)) (ranked_items tot hide lc)
     = take (nat (topN_of lc))
         (sort_key (\<lambda>p. - snd p) (filter (\<lambda>p. \<not> hidden (lowered_set (Some hide)) (fst p)) tot))"
    by (rule ranked_items_entries)
  show "list_all (\<lambda>i. \<not> hidden (lowered_set (Some hide)) (name i)) (ranked_items tot hide lc)"
    by (rule ranked_items_not_hidden)
  show "list_all (\<lambda>i. percent i =
         (if sum_list (map bytes (ranked_items tot hide lc)) = 0 then 0
          else 100 * of_int (bytes i) / of_int (sum_list (map bytes (ranked_items tot hide lc)))))
       (ranked_items tot hide lc)"
    by (rule ranked_items_percent)
  show "ranked_items [(''Go'', 150), (''Rust'', 30), (''Python'', 10)] ''Go'' ''1''
       = [\<lparr>name = ''Rust'', bytes = 30, percent = 100\<rparr>]"
    by code_simp
qed

text \<open>
  Claim C7, as the code has it. Every ranked item has at least one counted entry (a blob
  with a numeric size, in the resolved tree of one of the repositories, whose path
  classifies to the language of the item), and its byte count is the sum of the sizes of
  its counted entries. When these sizes are not negative, the byte count is therefore
  positive exactly when one of the counted entries is not empty: a language whose counted
  files are all empty is ranked with 0 bytes. This holds for the items of either revision.
\<close>

theorem ranked_items_bytes:
  assumes "aggregateRepos up cat refs branch = Inr tot"
  shows "list_all (\<lambda>i.
            counted_entries up cat branch refs (name i) \<noteq> [] \<and>
            bytes i = sum_list (map size_or0 (counted_entries up cat branch refs (name i))) \<and>
            (list_all (\<lambda>e. 0 \<le> size_or0 e) (counted_entries up cat branch refs (name i)) \<longrightarrow>
               (0 < bytes i)
                 = list_ex (\<lambda>e. 0 < size_or0 e) (counted_entries up cat branch refs (name i))))
          (ranked_items tot hide lc)
       \<and> list_all (\<lambda>i.
            counted_entries up cat branch refs (name i) \<noteq> [] \<and>
            bytes i = sum_list (map size_or0 (counted_entries up cat branch refs (name i))) \<and>
            (list_all (\<lambda>e. 0 \<le> size_or0 e) (counted_entries up cat branch refs (name i)) \<longrightarrow>
               (0 < bytes i)
                 = list_ex (\<lambda>e. 0 < size_or0 e) (counted_entries up cat branch refs (name i))))
          (ranked_colour_items cat tot hide lc)"
    (is "list_all ?P ?xs \<and> list_all ?Q ?ys")
proof (rule conjI)
  have "?P i" if "i \<in> set ?xs" for i
    using entry_as_counted [OF assms ranked_entry [OF that]] .
  then show "list_all ?P ?xs"
    by (intro list_all_iff [THEN iffD2] ballI)
next
  have "?Q i" if "i \<in> set ?ys" for i
    using entry_as_counted [OF assms ranked_colour_entry [OF that]] .
  then show "list_all ?Q ?ys"
    by (intro list_all_iff [THEN iffD2] ballI)
qed

theorem ranked_items_bytes_witness:
  "aggregateRepos mixed_upstream demo_catalog [''u/A''] ''develop'' = Inr [(''Python'', 10)]
   \<and> counted_entries mixed_upstream demo_catalog ''develop'' [''u/A''] ''Python''
       = [blob ''a.py'' 10, blob ''pkg/__init__.py'' 0]
   \<and> ranked_items [(''Python'', 10)] [] ''6'' = [\<lparr>name = ''Python'', bytes = 10, percent = 100\<rparr>]
   \<and> list_all (\<lambda>i.
            counted_entries mixed_upstream demo_catalog ''develop'' [''u/A''] (name i) \<noteq> [] \<and>
            bytes i = sum_list (map size_or0
                        (counted_entries mixed_upstream demo_catalog ''develop'' [''u/A''] (name i))) \<and>
            (list_all (\<lambda>e. 0 \<le> size_or0 e)
                 (counted_entries mixed_upstream demo_catalog ''develop'' [''u/A''] (name i)) \<longrightarrow>
               (0 < bytes i)
                 = list_ex (\<lambda>e. 0 < size_or0 e)
                     (counted_entries mixed_upstream demo_catalog ''develop'' [''u/A''] (name i))))
          (ranked_items [(''Python'', 10)] [] ''6'')
   \<and> aggregateRepos empty_file_upstream demo_catalog [''u/A''] ''develop'' = Inr [(''Python'', 0)]
   \<and> counted_entries empty_file_upstream demo_catalog ''develop'' [''u/A''] ''Python''
       = [blob ''pkg/__init__.py'' 0]
   \<and> list_all (\<lambda>i.
            counted_entries empty_file_upstream demo_catalog ''develop'' [''u/A''] (name i) \<noteq> [] \<and>
            bytes i = sum_list (map size_or0
                        (counted_entries empty_file_upstream demo_catalog ''develop'' [''u/A''] (name i))) \<and>
            (list_all (\<lambda>e. 0 \<le> size_or0 e)
                 (counted_entries empty_file_upstream demo_catalog ''develop'' [''u/A''] (name i)) \<longrightarrow>
               (0 < bytes i)
                 = list_ex (\<lambda>e. 0 < size_or0 e)
                     (counted_entries empty_file_upstream demo_catalog ''develop'' [''u/A''] (name i))))
          (ranked_items [(''Python'', 0)] [] ''6'')"
proof -
  have m: "aggregateRepos mixed_upstream demo_catalog [''u/A''] ''develop'' = Inr [(''Python'', 10)]"
    by code_simp
  have mc: "counted_entries mixed_upstream demo_catalog ''develop'' [''u/A''] ''Python''
       = [blob ''a.py'' 10, blob ''pkg/__init__.py'' 0]"
    by code_simp
  have mr: "ranked_items [(''Python'', 10)] [] ''6''
       = [\<lparr>name = ''Python'', bytes = 10, percent = 100\<rparr>]"
    by code_simp
  have z: "aggregateRepos empty_file_upstream demo_catalog [''u/A''] ''develop'' = Inr [(''Python'', 0)]"
    by code_simp
  have zc: "counted_entries empty_file_upstream demo_catalog ''develop'' [''u/A''] ''Python''
       = [blob ''pkg/__init__.py'' 0]"
    by code_simp
  note mixed = ranked_items_bytes [OF m, where hide = "[]" and lc = "''6''", THEN conjunct1]
  note empty = ranked_items_bytes [OF z, where hide = "[]" and lc = "''6''", THEN conjunct1]
  from m mc mr mixed z zc empty show ?thesis by blast
qed

theorem ranked_items_zero_bytes_counterexample:
  "aggregateRepos empty_file_upstream demo_catalog [''u/A''] ''develop'' = Inr [(''Python'', 0)]
   \<and> ranked_items [(''Python'', 0)] [] ''6'' = [\<lparr>name = ''Python'', bytes = 0, percent = 0\<rparr>]
   \<and> handler (Some ''token'') empty_file_upstream demo_catalog demo_query
       = \<lparr>res_status = 200, res_body = SvgCard [\<lparr>name = ''Python'', bytes = 0\<rparr>] 6\<rparr>"
  by code_simp

text \<open>
  Claim C8, as the code has it. The number of items never exceeds \<open>topN\<close>, and \<open>topN\<close>
  lies in 1..20; it is the requested number clamped into 1..20 when that number is not 0,
  and 6, the default, when the request is 0 or is not a number. A request of 500 gives
  \<open>topN = 20\<close>, hence at most 20 items.
\<close>

theorem ranked_items_at_most_topN:
  "length (ranked_items tot hide lc) \<le> nat (topN_of lc)
   \<and> length (ranked_colour_items cat tot hide lc) \<le> nat (topN_of lc)
   \<and> 1 \<le> topN_of lc \<and> topN_of lc \<le> 20
   \<and> (parseInt lc = Some n \<and> n \<noteq> 0 \<longrightarrow> topN_of lc = max 1 (min n 20))
   \<and> (parseInt lc = None \<or> parseInt lc = Some 0 \<longrightarrow> topN_of lc = 6)
   \<and> topN_of ''500'' = 20
   \<and> length (ranked_items tot hide ''500'') \<le> 20"
proof -
  have t500: "topN_of ''500'' = 20" by code_simp
  have "length (ranked_items tot hide ''500'') \<le> nat (topN_of ''500'')"
    by (rule length_ranked_items)
  then have l500: "length (ranked_items tot hide ''500'') \<le> 20"
    by (simp add: t500)
  show ?thesis
    using length_ranked_items [of tot hide lc] length_ranked_colour_items [of cat tot hide lc]
      topN_bounds [of lc] topN_of_number [of lc n] topN_of_default [of lc] t500 l500
    by blast
qed

theorem ranked_items_at_most_topN_witness:
  "parseInt ''500'' = Some 500 \<and> topN_of ''500'' = max 1 (min 500 20)
   \<and> parseInt ''-3'' = Some (- 3) \<and> topN_of ''-3'' = max 1 (min (- 3) 20)
   \<and> parseInt ''many'' = None \<and> topN_of ''many'' = 6
   \<and> length (ranked_items [(''Go'', 150), (''Rust'', 30), (''Python'', 10)] [] ''2'') \<le> nat (topN_of ''2'')"
proof -
  have a: "parseInt ''500'' = Some 500" by code_simp
  have b: "parseInt ''-3'' = Some (- 3)" by code_simp
  have c: "parseInt ''many'' = None" by code_simp
  have t1: "topN_of ''500'' = max 1 (min 500 20)"
    using ranked_items_at_most_topN [where lc = "''500''" and n = 500] a by simp
  have t2: "topN_of ''-3'' = max 1 (min (- 3) 20)"
    using ranked_items_at_most_topN [where lc = "''-3''" and n = "- 3"] b by simp
  have t3: "topN_of ''many'' = 6"
    using ranked_items_at_most_topN [where lc = "''many''"] c by simp
  have t4: "length (ranked_items [(''Go'', 150), (''Rust'', 30), (''Python'', 10)] [] ''2'')
              \<le> nat (topN_of ''2'')"
    using ranked_items_at_most_topN [where lc = "''2''"
        and tot = "[(''Go'', 150), (''Rust'', 30), (''Python'', 10)]" and hide = "[]"]
    by blast
  from a b c t1 t2 t3 t4 show ?thesis by blast
qed

theorem topN_of_zero_counterexample:
  "parseInt ''0'' = Some 0 \<and> clampValue 0 1 20 = 1 \<and> topN_of ''0'' = 6
   \<and> length (ranked_items [(''Go'', 150), (''Rust'', 30)] [] ''0'') = 2"
  by code_simp


subsection \<open>The guards of the handlers\<close>

lemma handler_without_token:
  "falsy pat \<Longrightarrow> res_status (handler pat up cat q) = 500"
  by (simp add: handler_def Let_def)

lemma handler_rev2_without_token:
  "falsy pat \<Longrightarrow> res_status (handler_rev2 pat up cat q) = 500"
  by (simp add: handler_rev2_def Let_def)

lemma handler_without_user:
  "\<not> falsy pat \<Longrightarrow> falsy (q_user q) \<Longrightarrow> res_status (handler pat up cat q) = 400"
  by (simp add: handler_def Let_def)

lemma handler_rev2_without_user:
  "\<not> falsy pat \<Longrightarrow> falsy (q_user q) \<Longrightarrow> res_status (handler_rev2 pat up cat q) = 400"
  by (simp add: handler_rev2_def Let_def)

text \<open>
  Claim C5, as the code has it, for requests whose query parameters are strings. Both
  revisions test the credential first: without it the answer is 500, whether or not
  \<open>user\<close> is present; with it and without \<open>user\<close> the answer is 400.
\<close>

theorem handler_guard_order:
  "(falsy pat \<longrightarrow>
      res_status (handler pat up cat q) = 500 \<and> res_status (handler_rev2 pat up cat q) = 500)
   \<and> (\<not> falsy pat \<and> falsy (q_user q) \<longrightarrow>
      res_status (handler pat up cat q) = 400 \<and> res_status (handler_rev2 pat up cat q) = 400)"
  using handler_without_token [of pat up cat q] handler_rev2_without_token [of pat up cat q]
    handler_without_user [of pat q up cat] handler_rev2_without_user [of pat q up cat]
  by blast

theorem handler_guard_order_witness:
  "falsy None
   \<and> res_status (handler None demo_upstream demo_catalog demo_query) = 500
   \<and> res_status (handler_rev2 None demo_upstream demo_catalog demo_query) = 500
   \<and> \<not> falsy (Some ''token'') \<and> falsy (q_user (demo_query\<lparr>q_user := None\<rparr>))
   \<and> res_status (handler (Some ''token'') demo_upstream demo_catalog (demo_query\<lparr>q_user := None\<rparr>)) = 400
   \<and> res_status (handler_rev2 (Some ''token'') demo_upstream demo_catalog (demo_query\<lparr>q_user := None\<rparr>)) = 400"
proof -
  have a: "falsy None" by (simp add: falsy_def)
  have b: "\<not> falsy (Some ''token'')" by (simp add: falsy_def)
  have c: "falsy (q_user (demo_query\<lparr>q_user := None\<rparr>))" by (simp add: falsy_def)
  show ?thesis
    using a b c
      handler_guard_order [of None demo_upstream demo_catalog demo_query]
      handler_guard_order [of "Some ''token''" demo_upstream demo_catalog "demo_query\<lparr>q_user := None\<rparr>"]
    by blast
qed

theorem handler_user_absent_counterexample:
  "q_user (demo_query\<lparr>q_user := None\<rparr>) = None
   \<and> res_status (handler None demo_upstream demo_catalog (demo_query\<lparr>q_user := None\<rparr>)) = 500
   \<and> res_status (handler_rev2 None demo_upstream demo_catalog (demo_query\<lparr>q_user := None\<rparr>)) = 500"
  by (simp add: handler_def handler_rev2_def Let_def falsy_def)

subsection \<open>The classifier on paths\<close>

lemma lastIndexOf_from_absent: "c \<notin> set s \<Longrightarrow> lastIndexOf_from c s i best = best"
  by (induction s arbitrary: i best) auto

lemma extToLanguage_no_dot: "CHR ''.'' \<notin> set path \<Longrightarrow> extToLanguage cat path = None"
  by (simp add: extToLanguage_def lastIndexOf_def lastIndexOf_from_absent)

lemma extToLanguage_leading_dot_only:
  "CHR ''.'' \<notin> set rest \<Longrightarrow> extToLanguage cat (CHR ''.'' # rest) = None"
  by (simp add: extToLanguage_def lastIndexOf_def lastIndexOf_from_absent)

lemma lastIndexOf_from_last:
  "c \<notin> set suf \<Longrightarrow> lastIndexOf_from c (pre @ c # suf) i best = i + int (length pre)"
  by (induction pre arbitrary: i best) (simp_all add: lastIndexOf_from_absent)

lemma lastIndexOf_last:
  "c \<notin> set suf \<Longrightarrow> lastIndexOf (pre @ c # suf) c = int (length pre)"
  by (simp add: lastIndexOf_def lastIndexOf_from_last)

lemma lower_char_slash: "lower_char CHR ''/'' = CHR ''/''"
  by (simp add: lower_char_def)

lemma slash_toLowerCase: "CHR ''/'' \<in> set s \<Longrightarrow> CHR ''/'' \<in> set (toLowerCase s)"
  using lower_char_slash by (force simp: toLowerCase_def)

lemma set_strip_leading_dot: "set (strip_leading_dot e) \<subseteq> set e"
  by (cases e) auto

lemma first_lang_slash:
  "slash_free_catalog cat \<Longrightarrow> CHR ''/'' \<in> set ext \<Longrightarrow> first_lang cat ext = None"
proof (induction cat)
  case Nil
  then show ?case by simp
next
  case (Cons entry cat)
  obtain lang meta where e: "entry = (lang, meta)" by (cases entry)
  have "\<not> claims_ext meta ext"
  proof
    assume "claims_ext meta ext"
    then obtain x where x: "x \<in> set (case extensions meta of None \<Rightarrow> [] | Some es \<Rightarrow> es)"
      "strip_leading_dot x = ext"
      by (auto simp: claims_ext_def list_ex_iff)
    with Cons.prems(1) have "CHR ''/'' \<notin> set x"
      by (auto simp: slash_free_catalog_def e list_all_iff)
    with set_strip_leading_dot [of x] x(2) Cons.prems(2) show False by auto
  qed
  moreover have "slash_free_catalog cat"
    using Cons.prems(1) by (simp add: slash_free_catalog_def)
  ultimately show ?case using Cons.IH Cons.prems(2) by (simp add: e)
qed

lemma final_segment_no_dot:
  assumes "CHR ''.'' \<notin> set (final_segment (pre @ CHR ''.'' # suf))"
  shows "CHR ''/'' \<in> set suf"
proof (rule ccontr)
  assume n: "CHR ''/'' \<notin> set suf"
  then have "takeWhile (\<lambda>c. c \<noteq> CHR ''/'') (rev suf @ CHR ''.'' # rev pre)
           = rev suf @ takeWhile (\<lambda>c. c \<noteq> CHR ''/'') (CHR ''.'' # rev pre)"
    by (intro takeWhile_append2) auto
  then have "CHR ''.'' \<in> set (final_segment (pre @ CHR ''.'' # suf))"
    by (simp add: final_segment_def)
  with assms show False by simp
qed

lemma extToLanguage_dotless_segment:
  assumes "slash_free_catalog cat" "CHR ''.'' \<notin> set (final_segment path)"
  shows "extToLanguage cat path = None"
proof (cases "CHR ''.'' \<in> set path")
  case False
  then show ?thesis by (rule extToLanguage_no_dot)
next
  case True
  then obtain pre suf where p: "path = pre @ CHR ''.'' # suf" "CHR ''.'' \<notin> set suf"
    by (auto dest: split_list_last)
  have sl: "CHR ''/'' \<in> set suf"
    using assms(2) unfolding p(1) by (rule final_segment_no_dot)
  have idx: "lastIndexOf path CHR ''.'' = int (length pre)"
    unfolding p(1) using p(2) by (rule lastIndexOf_last)
  have "slice_from path (int (length pre) + 1) = suf"
    by (simp add: slice_from_def p(1) nat_add_distrib)
  then have "first_lang cat (toLowerCase (slice_from path (int (length pre) + 1))) = None"
    using first_lang_slash [OF assms(1) slash_toLowerCase [OF sl]] by simp
  then show ?thesis
    by (simp add: extToLanguage_def idx Let_def)
qed

text \<open>
  Claim C6. \<^verbatim>\<open>extToLanguage\<close> looks for the last dot of the whole path it is given, not
  of the final segment. For a final segment without a dot the result is still no
  language, as long as no extension of the catalog contains a slash (lemma
  \<open>extToLanguage_dotless_segment\<close>), and a dotfile at the top of the tree has none
  either (lemma \<open>extToLanguage_leading_dot_only\<close>). A dotfile below a directory,
  however, is classified by its name: with a catalog that lists the extension
  \<^verbatim>\<open>.gitignore\<close>, the file \<^verbatim>\<open>.gitignore\<close> has no language at the top of the tree and the
  language \<open>Ignore List\<close> in the directory \<^verbatim>\<open>docs\<close>, where its bytes are counted.
\<close>

theorem extToLanguage_nested_dotfile:
  "extToLanguage demo_catalog ''.gitignore'' = None
   \<and> extToLanguage demo_catalog ''docs/.gitignore'' = Some ''Ignore List''
   \<and> aggregateByLanguageFromTree demo_catalog [blob ''.gitignore'' 40, blob ''docs/.gitignore'' 25]
       = [(''Ignore List'', 25)]"
  by code_simp


end
